theory Spec2Isabelle
  imports Main
begin

section \<open>Bytes, Python slices and the host language's conversions\<close>

text \<open>
  The parser of \<^verbatim>\<open>src/redis/sansio/_parser.py\<close> works on a \<^verbatim>\<open>bytearray\<close>.
  A byte is a \<^typ>\<open>char\<close> (8 bits), a byte string a list of them.
\<close>

type_synonym bytes = string

text \<open>Python's \<^verbatim>\<open>str\<close>: a sequence of Unicode code points.\<close>

type_synonym pystr = "nat list"

definition CR :: char where
  "CR = CHR 0x0D"

definition LF :: char where
  "LF = CHR 0x0A"

definition CRLF :: bytes where
  "CRLF = [CR, LF]"

text \<open>
  A slice bound of Python, for a sequence of length \<open>n\<close>: a negative bound counts from
  the end, and every bound is clamped into \<open>0..n\<close>.
\<close>

definition clamp :: "nat \<Rightarrow> int \<Rightarrow> nat" where
  "clamp n i = (if i < 0 then nat (int n + i) else min (nat i) n)"

text \<open>\<^verbatim>\<open>xs[a:b]\<close>\<close>

definition pyslice :: "'a list \<Rightarrow> int \<Rightarrow> int \<Rightarrow> 'a list" where
  "pyslice xs a b =
     (let lo = clamp (length xs) a; hi = clamp (length xs) b
      in take (hi - lo) (drop lo xs))"

text \<open>\<^verbatim>\<open>del xs[:b]\<close>\<close>

definition pydel :: "'a list \<Rightarrow> int \<Rightarrow> 'a list" where
  "pydel xs b = drop (clamp (length xs) b) xs"

text \<open>
  \<^verbatim>\<open>buf.find(b"\r\n", start)\<close>: the lowest index at or after \<open>start\<close> where the two
  bytes stand, or \<open>-1\<close>.
\<close>

fun crlf_index :: "bytes \<Rightarrow> nat option" where
  "crlf_index [] = None"
| "crlf_index [c] = None"
| "crlf_index (a # b # cs) =
     (if a = CR \<and> b = LF then Some 0 else map_option Suc (crlf_index (b # cs)))"

definition find_crlf :: "bytes \<Rightarrow> nat \<Rightarrow> int" where
  "find_crlf b start =
     (case crlf_index (drop start b) of None \<Rightarrow> - 1 | Some i \<Rightarrow> int (start + i))"

text \<open>
  \<^verbatim>\<open>int(b)\<close> for a bytes object \<open>b\<close> (base 10): optional ASCII whitespace, an optional
  sign, decimal digits with single underscores allowed between two digits, optional
  whitespace. \<open>None\<close> is Python's \<^verbatim>\<open>ValueError\<close>. The result is a mathematical integer
  (Python's integers are unbounded); the interpreter's optional cap on the number of
  digits (\<^verbatim>\<open>sys.set_int_max_str_digits\<close>) is not part of the model.
\<close>

definition is_space :: "char \<Rightarrow> bool" where
  "is_space c = (c = CHR '' '' \<or> c = CHR 0x09 \<or> c = CHR 0x0A \<or> c = CHR 0x0B
     \<or> c = CHR 0x0C \<or> c = CHR 0x0D)"

definition is_digit :: "char \<Rightarrow> bool" where
  "is_digit c = (48 \<le> (of_char c :: nat) \<and> (of_char c :: nat) \<le> 57)"

definition digit_val :: "char \<Rightarrow> int" where
  "digit_val c = int (of_char c) - 48"

fun scan_digits :: "int \<Rightarrow> bytes \<Rightarrow> (int \<times> bytes) option" where
  "scan_digits acc [] = Some (acc, [])"
| "scan_digits acc (c # cs) =
     (if is_digit c then scan_digits (10 * acc + digit_val c) cs
      else if c = CHR ''_'' then
        (case cs of
           [] \<Rightarrow> None
         | d # ds \<Rightarrow> if is_digit d then scan_digits (10 * acc + digit_val d) ds else None)
      else Some (acc, c # cs))"

definition py_int :: "bytes \<Rightarrow> int option" where
  "py_int s =
     (let s1 = dropWhile is_space s;
          neg = (case s1 of [] \<Rightarrow> False | c # cs \<Rightarrow> c = CHR ''-'');
          s2 = (case s1 of [] \<Rightarrow> [] | c # cs \<Rightarrow> if c = CHR ''+'' \<or> c = CHR ''-'' then cs else s1)
      in case s2 of
           [] \<Rightarrow> None
         | d # ds \<Rightarrow>
             if \<not> is_digit d then None
             else (case scan_digits (digit_val d) ds of
                     None \<Rightarrow> None
                   | Some (n, rest) \<Rightarrow>
                       if list_all is_space rest then Some (if neg then - n else n) else None))"



text \<open>
  \<^verbatim>\<open>vbt.split(b":", maxsplit=1)\<close> unpacked into \<^verbatim>\<open>typ, val\<close>: the bytes after the
  first colon, or \<open>None\<close> (the unpacking raises \<^verbatim>\<open>ValueError\<close>) when there is no colon.
\<close>

fun split_colon :: "bytes \<Rightarrow> bytes option" where
  "split_colon [] = None"
| "split_colon (c # cs) = (if c = CHR '':'' then Some cs else split_colon cs)"

text \<open>
  The exceptions of the language itself that the parser's code can raise, as opposed to
  the value its \<^verbatim>\<open>protocolError\<close> callback makes.
\<close>

datatype pyexc = TypeError | ValueError | UnicodeDecodeError | LookupError

text \<open>
  The two conversions of the host language the parser calls and this development does
  not interpret: \<^verbatim>\<open>float(b)\<close> (\<open>None\<close> is \<^verbatim>\<open>ValueError\<close>) and
  \<^verbatim>\<open>b.decode(encoding, errors=errors)\<close>, which raises when the codec is unknown or the
  bytes do not decode under the error policy. \<open>'f\<close> is the type of floats.
\<close>

record 'f host =
  py_float :: "bytes \<Rightarrow> 'f option"
  py_decode :: "string \<Rightarrow> string \<Rightarrow> bytes \<Rightarrow> pyexc + pystr"

section \<open>Values, errors and the parser object\<close>

text \<open>
  A parsed reply. \<open>'r\<close> is the type of the values the \<^verbatim>\<open>replyError\<close> callback makes.
  A dict is kept as the list of its assignments \<^verbatim>\<open>val[key] = v\<close> in the order they
  ran: Python's dict is read off it, a later assignment to an equal key winning.
\<close>

datatype ('f, 'r) pyval =
    PNone
  | PBytes bytes
  | PStr pystr
  | PInt int
  | PFloat 'f
  | PBool bool
  | PError 'r
  | PList "('f, 'r) pyval list"
  | PDict "(('f, 'r) pyval \<times> ('f, 'r) pyval) list"
  | PSet "('f, 'r) pyval list"

text \<open>Lists, dicts and sets are unhashable: using one as a dict key raises \<^verbatim>\<open>TypeError\<close>.\<close>

fun hashable :: "('f, 'r) pyval \<Rightarrow> bool" where
  "hashable (PList xs) = False"
| "hashable (PDict kvs) = False"
| "hashable (PSet xs) = False"
| "hashable v = True"

text \<open>What \<^verbatim>\<open>parse_one\<close> raises: the protocol error of the callback, or a bare exception.\<close>

datatype 'e exn = Protocol 'e | Bare pyexc

text \<open>
  The argument \<^verbatim>\<open>error\<close> passes to \<^verbatim>\<open>protocolError\<close>: the text
  \<^verbatim>\<open>"Expected b'\r\n'"\<close>, the \<^verbatim>\<open>ValueError\<close> of \<^verbatim>\<open>int\<close> or \<^verbatim>\<open>float\<close> on a token, or
  \<^verbatim>\<open>f"Protocol Error: {msg!r}"\<close> for the tag bytes \<open>ctl\<close>.
\<close>

datatype errmsg =
    Msg_expected_crlf
  | Msg_int_value_error bytes
  | Msg_float_value_error bytes
  | Msg_protocol_error bytes

text \<open>The frame parsers, the values of the two dispatch tables.\<close>

datatype fparser =
    Parse_error | Parse_single | Parse_single_decode | Parse_verbatim
  | Parse_verbatim_decode | Parse_int | Parse_float | Parse_bulk | Parse_bulk_decode
  | Parse_mutibulk | Parse_null | Parse_bool | Parse_dict | Parse_set | Parse_vector

definition PROTOCOLS :: "(bytes \<times> fparser) list" where
  "PROTOCOLS =
     [(''-'', Parse_error), (''+'', Parse_single), ('':'', Parse_int), (''('', Parse_int),
      ('','', Parse_float), (''#'', Parse_bool), (''_'', Parse_null), (''$'', Parse_bulk),
      (''='', Parse_verbatim), (''*'', Parse_mutibulk), (''~'', Parse_set),
      (''%'', Parse_dict), (''>'', Parse_vector)]"

definition PROTOCOLS_DECODE :: "(bytes \<times> fparser) list" where
  "PROTOCOLS_DECODE =
     [(''-'', Parse_error), (''+'', Parse_single_decode), ('':'', Parse_int),
      (''('', Parse_int), ('','', Parse_float), (''#'', Parse_bool), (''_'', Parse_null),
      (''$'', Parse_bulk_decode), (''='', Parse_verbatim_decode), (''*'', Parse_mutibulk),
      (''~'', Parse_set), (''%'', Parse_dict), (''>'', Parse_vector)]"

text \<open>
  The suspended generator chain \<^verbatim>\<open>_gen\<close>. Every \<^verbatim>\<open>yield\<close> of the source is the one in
  \<^verbatim>\<open>waitsome\<close>, so the innermost generators are a reader inside \<^verbatim>\<open>waitsome(size)\<close>:
  \<^item> \<open>In_readone size\<close>: \<^verbatim>\<open>parse\<close> \<open>\<rightarrow>\<close> \<^verbatim>\<open>readone\<close> \<open>\<rightarrow>\<close> \<^verbatim>\<open>waitany\<close> \<open>\<rightarrow>\<close> \<^verbatim>\<open>waitsome(size)\<close>;
  \<^item> \<open>In_readline fp size\<close>: the frame parser \<open>fp\<close> in its first \<^verbatim>\<open>readline()\<close> (through
    \<^verbatim>\<open>readint\<close>, \<^verbatim>\<open>readfloat\<close> or \<^verbatim>\<open>readbool\<close> where it calls them), in
    \<^verbatim>\<open>waitany\<close> \<open>\<rightarrow>\<close> \<^verbatim>\<open>waitsome(size)\<close>;
  \<^item> \<open>In_readline_size sp length\<close>: a bulk or verbatim parser in \<^verbatim>\<open>readline(length)\<close>,
    in \<^verbatim>\<open>waitsome(length + 2)\<close>.
  Above the reader are the aggregate parsers suspended in \<^verbatim>\<open>yield from parse()\<close>, with
  their local variables, innermost first.
\<close>

datatype sized = Sized_bulk | Sized_bulk_decode | Sized_verbatim | Sized_verbatim_decode

datatype reader =
    In_readone int
  | In_readline fparser int
  | In_readline_size sized int

datatype ('f, 'r) frame =
    In_mutibulk int "('f, 'r) pyval list"
  | In_dict_key int "(('f, 'r) pyval \<times> ('f, 'r) pyval) list"
  | In_dict_val int "(('f, 'r) pyval \<times> ('f, 'r) pyval) list" "('f, 'r) pyval"

text \<open>
  The slots of \<^verbatim>\<open>PythonParser\<close>. \<open>pos\<close> is only ever set to 0 or incremented, so it is a
  natural number. \<^verbatim>\<open>notEnoughData\<close>, the sentinel the caller chose, is the outcome
  \<open>NotEnoughData\<close> below. The two callbacks are functions: they return, and what
  \<^verbatim>\<open>protocolError\<close> returns is an exception that \<^verbatim>\<open>raise\<close> accepts.
\<close>

record ('f, 'e, 'r) parser =
  buf :: bytes
  pos :: nat
  protocolError :: "errmsg \<Rightarrow> 'e"
  replyError :: "pystr \<Rightarrow> 'r"
  encoding :: "string option"
  encoding_errors :: string
  err :: "'e option"
  gen :: "(reader \<times> ('f, 'r) frame list) option"
  protocols :: "(bytes \<times> fparser) list"

text \<open>
  \<^verbatim>\<open>__init__\<close>. \<^verbatim>\<open>errors or "strict"\<close> and the truth value of \<^verbatim>\<open>self.encoding\<close>: \<^verbatim>\<open>None\<close>
  and the empty string are false.
\<close>

definition truthy :: "string option \<Rightarrow> bool" where
  "truthy s = (case s of None \<Rightarrow> False | Some x \<Rightarrow> x \<noteq> [])"

definition init ::
  "(errmsg \<Rightarrow> 'e) \<Rightarrow> (pystr \<Rightarrow> 'r) \<Rightarrow> string option \<Rightarrow> string option \<Rightarrow> ('f, 'e, 'r) parser" where
  "init protocolError' replyError' encoding' errors =
     \<lparr> buf = [], pos = 0, protocolError = protocolError', replyError = replyError',
       encoding = encoding',
       encoding_errors = (case errors of None \<Rightarrow> ''strict'' | Some x \<Rightarrow> if x = [] then ''strict'' else x),
       err = None, gen = None,
       protocols = (if truthy encoding' then PROTOCOLS_DECODE else PROTOCOLS) \<rparr>"

text \<open>The setter of \<^verbatim>\<open>encoding\<close>.\<close>

definition set_encoding :: "('f, 'e, 'r) parser \<Rightarrow> string option \<Rightarrow> ('f, 'e, 'r) parser" where
  "set_encoding p val = p\<lparr>encoding := val, protocols := PROTOCOLS_DECODE\<rparr>"

text \<open>The owner appends the bytes it received to \<^verbatim>\<open>buf\<close>.\<close>

definition feed :: "('f, 'e, 'r) parser \<Rightarrow> bytes \<Rightarrow> ('f, 'e, 'r) parser" where
  "feed p data = p\<lparr>buf := buf p @ data\<rparr>"

section \<open>The low-level readers\<close>

text \<open>
  A reader either finishes with a result and the updated parser, or is suspended in the
  \<^verbatim>\<open>yield\<close> of \<^verbatim>\<open>waitsome(size)\<close> (the parser is then unchanged), or raises.
\<close>

datatype ('a, 's, 'x) reading = Done 'a 's | Blocked int | Threw 'x 's

text \<open>
  \<^verbatim>\<open>waitsome(size)\<close>: the guard of its loop, \<^verbatim>\<open>len(self.buf) < self.pos + size\<close>. While
  it holds the generator yields; it is read again on every resumption.
\<close>

definition waitsome :: "('f, 'e, 'r) parser \<Rightarrow> int \<Rightarrow> bool" where
  "waitsome p size' = (int (length (buf p)) < int (pos p) + size')"

text \<open>\<^verbatim>\<open>waitany\<close>: the size it passes to \<^verbatim>\<open>waitsome\<close>, \<^verbatim>\<open>len(self.buf) + 1\<close>.\<close>

definition waitany :: "('f, 'e, 'r) parser \<Rightarrow> int" where
  "waitany p = int (length (buf p)) + 1"

text \<open>\<^verbatim>\<open>readone\<close> from line 86 on, after the wait.\<close>

definition readone_rest :: "('f, 'e, 'r) parser \<Rightarrow> (bytes, ('f, 'e, 'r) parser, 'e exn) reading" where
  "readone_rest p =
     Done (pyslice (buf p) (int (pos p)) (int (pos p) + 1)) (p\<lparr>pos := pos p + 1\<rparr>)"

definition readone :: "('f, 'e, 'r) parser \<Rightarrow> (bytes, ('f, 'e, 'r) parser, 'e exn) reading" where
  "readone p =
     (if pyslice (buf p) (int (pos p)) (int (pos p) + 1) = [] then
        (if waitsome p (waitany p) then Blocked (waitany p) else readone_rest p)
      else readone_rest p)"

text \<open>\<^verbatim>\<open>error\<close>: makes the protocol error, stores it in \<^verbatim>\<open>_err\<close> and returns it.\<close>

definition error :: "('f, 'e, 'r) parser \<Rightarrow> errmsg \<Rightarrow> 'e \<times> ('f, 'e, 'r) parser" where
  "error p msg = (protocolError p msg, p\<lparr>err := Some (protocolError p msg)\<rparr>)"

text \<open>\<^verbatim>\<open>readline\<close>, lines 102 to 105: the line is cut out and the buffer truncated.\<close>

definition readline_rest ::
  "('f, 'e, 'r) parser \<Rightarrow> int \<Rightarrow> (bytes, ('f, 'e, 'r) parser, 'e exn) reading" where
  "readline_rest p offset =
     Done (pyslice (buf p) (int (pos p)) offset)
       (p\<lparr>pos := 0, buf := pydel (buf p) (offset + 2)\<rparr>)"

text \<open>
  \<^verbatim>\<open>readline()\<close> with no size: the loop \<^verbatim>\<open>while offset < 0\<close> around \<^verbatim>\<open>waitany\<close>. A
  resumption whose wait is over searches again, which is this function again.
\<close>

function readline :: "('f, 'e, 'r) parser \<Rightarrow> (bytes, ('f, 'e, 'r) parser, 'e exn) reading" where
  "readline p =
     (let offset = find_crlf (buf p) (pos p) in
      if offset < 0 then
        (if waitsome p (waitany p) then Blocked (waitany p) else readline p)
      else readline_rest p offset)"
  by pat_completeness auto
termination
  by (relation "{}") (simp_all add: waitsome_def waitany_def)

declare readline.simps [simp del]

text \<open>\<^verbatim>\<open>readline(size)\<close> from line 94 on, after the wait.\<close>

definition readline_size_rest ::
  "('f, 'e, 'r) parser \<Rightarrow> int \<Rightarrow> (bytes, ('f, 'e, 'r) parser, 'e exn) reading" where
  "readline_size_rest p size' =
     (let offset = int (pos p) + size' in
      if pyslice (buf p) offset (offset + 2) \<noteq> CRLF then
        (case error p Msg_expected_crlf of (e, p') \<Rightarrow> Threw (Protocol e) p')
      else readline_rest p offset)"

definition readline_size ::
  "('f, 'e, 'r) parser \<Rightarrow> int \<Rightarrow> (bytes, ('f, 'e, 'r) parser, 'e exn) reading" where
  "readline_size p size' =
     (if int (length (buf p)) < size' + 2 + int (pos p) then
        (if waitsome p (size' + 2) then Blocked (size' + 2) else readline_size_rest p size')
      else readline_size_rest p size')"

text \<open>
  \<^verbatim>\<open>readint\<close> and \<^verbatim>\<open>readfloat\<close> once their \<^verbatim>\<open>readline()\<close> has returned \<open>line\<close>: the
  conversion, its \<^verbatim>\<open>ValueError\<close> turned into a protocol error.
\<close>

definition readint ::
  "('f, 'e, 'r) parser \<Rightarrow> bytes \<Rightarrow> ('e exn \<times> ('f, 'e, 'r) parser) + int" where
  "readint p line =
     (case py_int line of
        None \<Rightarrow> (case error p (Msg_int_value_error line) of (e, p') \<Rightarrow> Inl (Protocol e, p'))
      | Some n \<Rightarrow> Inr n)"

definition readfloat ::
  "'f host \<Rightarrow> ('f, 'e, 'r) parser \<Rightarrow> bytes \<Rightarrow> ('e exn \<times> ('f, 'e, 'r) parser) + 'f" where
  "readfloat h p line =
     (case py_float h line of
        None \<Rightarrow> (case error p (Msg_float_value_error line) of (e, p') \<Rightarrow> Inl (Protocol e, p'))
      | Some x \<Rightarrow> Inr x)"

text \<open>\<^verbatim>\<open>readbool\<close>: nothing in its \<^verbatim>\<open>try\<close> block raises \<^verbatim>\<open>ValueError\<close>.\<close>

definition readbool :: "bytes \<Rightarrow> bool" where
  "readbool line = (line = ''t'')"

section \<open>The frame parsers\<close>

text \<open>
  How far a frame parser gets: it returns a value, it is suspended in a reader, it raises,
  or (an aggregate) it is about to run \<^verbatim>\<open>yield from parse()\<close> for its next child.
\<close>

datatype ('f, 'e, 'r) step =
    Returned "('f, 'r) pyval" "('f, 'e, 'r) parser"
  | Yielded reader "('f, 'e, 'r) parser"
  | Raises "'e exn" "('f, 'e, 'r) parser"
  | Descend "('f, 'r) frame" "('f, 'e, 'r) parser"

text \<open>\<^verbatim>\<open>_maybe_decode\<close>; \<^verbatim>\<open>decode\<close> with the encoding \<^verbatim>\<open>None\<close> raises \<^verbatim>\<open>TypeError\<close>.\<close>

definition maybe_decode ::
  "'f host \<Rightarrow> ('f, 'e, 'r) parser \<Rightarrow> bytes option \<Rightarrow> pyexc + ('f, 'r) pyval" where
  "maybe_decode h p val =
     (case val of
        None \<Rightarrow> Inr PNone
      | Some b \<Rightarrow>
          (case encoding p of
             None \<Rightarrow> Inl TypeError
           | Some enc \<Rightarrow>
               (case py_decode h enc (encoding_errors p) b of
                  Inl x \<Rightarrow> Inl x
                | Inr t \<Rightarrow> Inr (PStr t))))"

definition decoded ::
  "'f host \<Rightarrow> ('f, 'e, 'r) parser \<Rightarrow> bytes option \<Rightarrow> ('f, 'e, 'r) step" where
  "decoded h p val =
     (case maybe_decode h p val of Inl x \<Rightarrow> Raises (Bare x) p | Inr v \<Rightarrow> Returned v p)"

text \<open>
  The end of \<^verbatim>\<open>_parse_bulk\<close>, \<^verbatim>\<open>_parse_verbatim\<close> and their decoding wrappers, once
  \<^verbatim>\<open>readline(length)\<close> has returned \<open>val\<close>.
\<close>

fun after_size ::
  "'f host \<Rightarrow> sized \<Rightarrow> ('f, 'e, 'r) parser \<Rightarrow> bytes \<Rightarrow> ('f, 'e, 'r) step" where
  "after_size h Sized_bulk p val = Returned (PBytes val) p"
| "after_size h Sized_bulk_decode p val = decoded h p (Some val)"
| "after_size h Sized_verbatim p vbt =
     (case split_colon vbt of
        None \<Rightarrow> Raises (Bare ValueError) p
      | Some val \<Rightarrow> Returned (PBytes val) p)"
| "after_size h Sized_verbatim_decode p vbt =
     (case split_colon vbt of
        None \<Rightarrow> Raises (Bare ValueError) p
      | Some val \<Rightarrow> decoded h p (Some val))"

definition size_step ::
  "'f host \<Rightarrow> sized \<Rightarrow> int \<Rightarrow> ('f, 'e, 'r) parser
     \<Rightarrow> (bytes, ('f, 'e, 'r) parser, 'e exn) reading \<Rightarrow> ('f, 'e, 'r) step" where
  "size_step h sp length' p rd =
     (case rd of
        Blocked size' \<Rightarrow> Yielded (In_readline_size sp length') p
      | Threw x p' \<Rightarrow> Raises x p'
      | Done val p' \<Rightarrow> after_size h sp p' val)"

text \<open>
  \<^verbatim>\<open>_parse_bulk\<close> and \<^verbatim>\<open>_parse_verbatim\<close> (\<open>sp\<close> says which, and whether through the
  decoding wrapper) once the length line is read. \<^verbatim>\<open>_maybe_decode(None)\<close> is \<^verbatim>\<open>None\<close>.
\<close>

definition parse_sized ::
  "'f host \<Rightarrow> sized \<Rightarrow> ('f, 'e, 'r) parser \<Rightarrow> bytes \<Rightarrow> ('f, 'e, 'r) step" where
  "parse_sized h sp p line =
     (case readint p line of
        Inl (x, p') \<Rightarrow> Raises x p'
      | Inr length' \<Rightarrow>
          if length' = - 1 then Returned PNone p
          else size_step h sp length' p (readline_size p length'))"

text \<open>\<^verbatim>\<open>_parse_error\<close>: \<^verbatim>\<open>val or b"Error"\<close>, \<^verbatim>\<open>self.encoding or "utf8"\<close>.\<close>

definition parse_error ::
  "'f host \<Rightarrow> ('f, 'e, 'r) parser \<Rightarrow> bytes \<Rightarrow> ('f, 'e, 'r) step" where
  "parse_error h p val =
     (case py_decode h (if truthy (encoding p) then the (encoding p) else ''utf8'') ''replace''
             (if val = [] then ''Error'' else val) of
        Inl x \<Rightarrow> Raises (Bare x) p
      | Inr t \<Rightarrow> Returned (PError (replyError p t)) p)"

definition parse_int :: "('f, 'e, 'r) parser \<Rightarrow> bytes \<Rightarrow> ('f, 'e, 'r) step" where
  "parse_int p line =
     (case readint p line of Inl (x, p') \<Rightarrow> Raises x p' | Inr n \<Rightarrow> Returned (PInt n) p)"

definition parse_float :: "'f host \<Rightarrow> ('f, 'e, 'r) parser \<Rightarrow> bytes \<Rightarrow> ('f, 'e, 'r) step" where
  "parse_float h p line =
     (case readfloat h p line of Inl (x, p') \<Rightarrow> Raises x p' | Inr x \<Rightarrow> Returned (PFloat x) p)"

text \<open>
  \<^verbatim>\<open>_parse_mutibulk\<close> once the length line is read; \<^verbatim>\<open>range(length)\<close> is empty for a
  length below 1.
\<close>

definition parse_mutibulk :: "('f, 'e, 'r) parser \<Rightarrow> bytes \<Rightarrow> ('f, 'e, 'r) step" where
  "parse_mutibulk p line =
     (case readint p line of
        Inl (x, p') \<Rightarrow> Raises x p'
      | Inr length' \<Rightarrow>
          if length' = - 1 then Returned PNone p
          else if 0 < length' then Descend (In_mutibulk length' []) p
          else Returned (PList []) p)"

definition parse_dict :: "('f, 'e, 'r) parser \<Rightarrow> bytes \<Rightarrow> ('f, 'e, 'r) step" where
  "parse_dict p line =
     (case readint p line of
        Inl (x, p') \<Rightarrow> Raises x p'
      | Inr keynum \<Rightarrow>
          if keynum = - 1 then Returned PNone p
          else if 0 < keynum then Descend (In_dict_key keynum []) p
          else Returned (PDict []) p)"

text \<open>
  \<^verbatim>\<open>_parse_set\<close>: the loop body is \<^verbatim>\<open>add((yield from parse))\<close>, and \<^verbatim>\<open>parse\<close> is the bound
  method, not a call of it: \<^verbatim>\<open>yield from\<close> raises \<^verbatim>\<open>TypeError\<close> (a method is not
  iterable) in the first iteration.
\<close>

definition parse_set :: "('f, 'e, 'r) parser \<Rightarrow> bytes \<Rightarrow> ('f, 'e, 'r) step" where
  "parse_set p line =
     (case readint p line of
        Inl (x, p') \<Rightarrow> Raises x p'
      | Inr length' \<Rightarrow>
          if length' = - 1 then Returned PNone p
          else if 0 < length' then Raises (Bare TypeError) p
          else Returned (PSet []) p)"

text \<open>
  Each frame parser once its first \<^verbatim>\<open>readline()\<close> has returned \<open>line\<close>.
  \<^verbatim>\<open>_parse_vector\<close> returns the generator of \<^verbatim>\<open>_parse_mutibulk\<close>.
\<close>

fun after_line ::
  "'f host \<Rightarrow> fparser \<Rightarrow> ('f, 'e, 'r) parser \<Rightarrow> bytes \<Rightarrow> ('f, 'e, 'r) step" where
  "after_line h Parse_error p line = parse_error h p line"
| "after_line h Parse_single p line = Returned (PBytes line) p"
| "after_line h Parse_single_decode p line = decoded h p (Some line)"
| "after_line h Parse_verbatim p line = parse_sized h Sized_verbatim p line"
| "after_line h Parse_verbatim_decode p line = parse_sized h Sized_verbatim_decode p line"
| "after_line h Parse_int p line = parse_int p line"
| "after_line h Parse_float p line = parse_float h p line"
| "after_line h Parse_bulk p line = parse_sized h Sized_bulk p line"
| "after_line h Parse_bulk_decode p line = parse_sized h Sized_bulk_decode p line"
| "after_line h Parse_mutibulk p line = parse_mutibulk p line"
| "after_line h Parse_null p line = Returned PNone p"
| "after_line h Parse_bool p line = Returned (PBool (readbool line)) p"
| "after_line h Parse_dict p line = parse_dict p line"
| "after_line h Parse_set p line = parse_set p line"
| "after_line h Parse_vector p line = parse_mutibulk p line"

definition line_step ::
  "'f host \<Rightarrow> fparser \<Rightarrow> ('f, 'e, 'r) parser
     \<Rightarrow> (bytes, ('f, 'e, 'r) parser, 'e exn) reading \<Rightarrow> ('f, 'e, 'r) step" where
  "line_step h fp p rd =
     (case rd of
        Blocked size' \<Rightarrow> Yielded (In_readline fp size') p
      | Threw x p' \<Rightarrow> Raises x p'
      | Done line p' \<Rightarrow> after_line h fp p' line)"

text \<open>
  \<^verbatim>\<open>parse\<close> from line 134 on, once \<^verbatim>\<open>readone\<close> has returned \<open>ctl\<close>: the lookup in the
  table that \<^verbatim>\<open>_protocols\<close> names now, and the start of the frame parser.
\<close>

definition dispatch :: "'f host \<Rightarrow> ('f, 'e, 'r) parser \<Rightarrow> bytes \<Rightarrow> ('f, 'e, 'r) step" where
  "dispatch h p ctl =
     (case map_of (protocols p) ctl of
        None \<Rightarrow> (case error p (Msg_protocol_error ctl) of (e, p') \<Rightarrow> Raises (Protocol e) p')
      | Some fp \<Rightarrow> line_step h fp p (readline p))"

definition one_step ::
  "'f host \<Rightarrow> ('f, 'e, 'r) parser
     \<Rightarrow> (bytes, ('f, 'e, 'r) parser, 'e exn) reading \<Rightarrow> ('f, 'e, 'r) step" where
  "one_step h p rd =
     (case rd of
        Blocked size' \<Rightarrow> Yielded (In_readone size') p
      | Threw x p' \<Rightarrow> Raises x p'
      | Done ctl p' \<Rightarrow> dispatch h p' ctl)"

text \<open>\<^verbatim>\<open>parse\<close>, up to the first child of an aggregate.\<close>

definition parse :: "'f host \<Rightarrow> ('f, 'e, 'r) parser \<Rightarrow> ('f, 'e, 'r) step" where
  "parse h p =
     (case err p of
        Some e \<Rightarrow> Raises (Protocol e) p
      | None \<Rightarrow> one_step h p (readone p))"

text \<open>
  An aggregate suspended in \<^verbatim>\<open>yield from parse()\<close> receives the child's value \<open>v\<close>: the
  rest of the loop body and the loop's next test.
\<close>

fun child_returned ::
  "('f, 'r) frame \<Rightarrow> ('f, 'r) pyval \<Rightarrow> ('f, 'e, 'r) parser \<Rightarrow> ('f, 'e, 'r) step" where
  "child_returned (In_mutibulk length' val) v p =
     (if int (length (val @ [v])) < length' then Descend (In_mutibulk length' (val @ [v])) p
      else Returned (PList (val @ [v])) p)"
| "child_returned (In_dict_key keynum val) key p = Descend (In_dict_val keynum val key) p"
| "child_returned (In_dict_val keynum val key) v p =
     (if \<not> hashable key then Raises (Bare TypeError) p
      else if int (length (val @ [(key, v)])) < keynum then
        Descend (In_dict_key keynum (val @ [(key, v)])) p
      else Returned (PDict (val @ [(key, v)])) p)"

text \<open>A suspended reader is resumed: the guard of \<^verbatim>\<open>waitsome\<close> is read again.\<close>

fun resume :: "'f host \<Rightarrow> ('f, 'e, 'r) parser \<Rightarrow> reader \<Rightarrow> ('f, 'e, 'r) step" where
  "resume h p (In_readone size') =
     (if waitsome p size' then Yielded (In_readone size') p
      else one_step h p (readone_rest p))"
| "resume h p (In_readline fp size') =
     (if waitsome p size' then Yielded (In_readline fp size') p
      else line_step h fp p (readline p))"
| "resume h p (In_readline_size sp length') =
     (if waitsome p (length' + 2) then Yielded (In_readline_size sp length') p
      else size_step h sp length' p (readline_size_rest p length'))"

section \<open>The driver\<close>

text \<open>
  The unread part of the buffer bounds the work of one \<^verbatim>\<open>parse_one\<close> call: every frame
  that starts reads its tag byte.
\<close>

definition rem :: "('f, 'e, 'r) parser \<Rightarrow> nat" where
  "rem p = length (buf p) - pos p"

fun step_rem :: "('f, 'e, 'r) step \<Rightarrow> nat" where
  "step_rem (Returned v p) = Suc (rem p)"
| "step_rem (Descend fr p) = Suc (rem p)"
| "step_rem (Yielded r p) = 0"
| "step_rem (Raises x p) = 0"

lemma waitsome_waitany [simp]: "waitsome p (waitany p)"
  by (simp add: waitsome_def waitany_def)

lemma readline_eq:
  "readline p =
     (if find_crlf (buf p) (pos p) < 0 then Blocked (waitany p)
      else readline_rest p (find_crlf (buf p) (pos p)))"
  by (subst readline.simps) (simp add: Let_def)

lemma pyslice_one_empty: "(pyslice xs (int n) (int n + 1) = []) = (length xs \<le> n)"
  by (auto simp: pyslice_def clamp_def Let_def min_def)

lemma readone_eq:
  "readone p = (if length (buf p) \<le> pos p then Blocked (waitany p) else readone_rest p)"
  by (simp add: readone_def pyslice_one_empty)

lemma crlf_index_bound: "crlf_index xs = Some i \<Longrightarrow> i + 2 \<le> length xs"
  by (induction xs arbitrary: i rule: crlf_index.induct) (auto split: if_splits)

lemma find_crlf_bounds:
  "0 \<le> find_crlf b s \<Longrightarrow> int s \<le> find_crlf b s \<and> find_crlf b s + 2 \<le> int (length b)"
  by (auto simp: find_crlf_def split: option.splits dest!: crlf_index_bound)

lemma length_pydel: "length (pydel xs b) \<le> length xs"
  by (simp add: pydel_def)

lemma length_pydel_nonneg: "0 \<le> b \<Longrightarrow> length (pydel xs b) = length xs - nat b"
  by (simp add: pydel_def clamp_def min_def)

lemma readline_Done:
  assumes "readline p = Done line p'"
  shows "pos p' = 0 \<and> length (buf p') + pos p + 2 \<le> length (buf p)"
proof -
  let ?o = "find_crlf (buf p) (pos p)"
  from assms have o: "0 \<le> ?o" and p': "p' = p\<lparr>pos := 0, buf := pydel (buf p) (?o + 2)\<rparr>"
    by (auto simp: readline_eq readline_rest_def split: if_splits)
  from find_crlf_bounds[OF o] have "int (pos p) \<le> ?o" "?o + 2 \<le> int (length (buf p))" by auto
  then show ?thesis using o by (simp add: p' length_pydel_nonneg) 
qed

lemma readline_size_rest_Done:
  "readline_size_rest p n = Done val p' \<Longrightarrow> pos p' = 0 \<and> length (buf p') \<le> length (buf p)"
  by (auto simp: readline_size_rest_def readline_rest_def error_def Let_def length_pydel split: if_splits)

lemma readline_size_Done:
  "readline_size p n = Done val p' \<Longrightarrow> pos p' = 0 \<and> length (buf p') \<le> length (buf p)"
  by (auto simp: readline_size_def dest: readline_size_rest_Done split: if_splits)

lemma step_rem_decoded: "step_rem (decoded h p v) \<le> Suc (rem p)"
  by (simp add: decoded_def split: sum.splits)

lemma step_rem_after_size: "step_rem (after_size h sp p val) \<le> Suc (rem p)"
  by (cases sp) (auto simp: step_rem_decoded split: option.splits)

lemma step_rem_size_step:
  assumes "\<And>val p'. rd = Done val p' \<Longrightarrow> rem p' \<le> n"
  shows "step_rem (size_step h sp len p rd) \<le> Suc n"
proof (cases rd)
  case (Done val p')
  then show ?thesis using assms[OF Done] step_rem_after_size[of h sp p' val]
    by (simp add: size_step_def)
qed (simp_all add: size_step_def)

lemma step_rem_parse_sized:
  "pos p = 0 \<Longrightarrow> step_rem (parse_sized h sp p line) \<le> Suc (rem p)"
  unfolding parse_sized_def
  by (auto simp: readint_def error_def rem_def split: sum.splits option.splits prod.splits
      intro!: step_rem_size_step dest: readline_size_Done)

lemma step_rem_after_line:
  "pos p = 0 \<Longrightarrow> step_rem (after_line h fp p line) \<le> Suc (rem p)"
  by (cases fp)
    (auto simp: step_rem_parse_sized step_rem_decoded parse_error_def parse_int_def parse_float_def
      parse_mutibulk_def parse_dict_def parse_set_def readint_def readfloat_def error_def
      split: sum.splits option.splits prod.splits)

lemma step_rem_line_step:
  "step_rem (line_step h fp p (readline p)) \<le> rem p - 1"
proof (cases "readline p")
  case (Done line p')
  from readline_Done[OF Done] have "pos p' = 0" "Suc (rem p') \<le> rem p - 1"
    by (auto simp: rem_def)
  then show ?thesis using step_rem_after_line[of p' h fp line] Done
    by (simp add: line_step_def)
qed (simp_all add: line_step_def)

lemma step_rem_dispatch: "step_rem (dispatch h p ctl) \<le> rem p"
proof (cases "map_of (protocols p) ctl")
  case None
  then show ?thesis by (simp add: dispatch_def error_def)
next
  case (Some fp)
  have "step_rem (line_step h fp p (readline p)) \<le> rem p - 1"
    by (rule step_rem_line_step)
  then show ?thesis using Some by (simp add: dispatch_def)
qed

lemma step_rem_parse: "step_rem (parse h p) \<le> rem p"
proof (cases "err p = None \<and> pos p < length (buf p)")
  case True
  let ?p = "p\<lparr>pos := pos p + 1\<rparr>"
  let ?ctl = "pyslice (buf p) (int (pos p)) (int (pos p) + 1)"
  have "step_rem (dispatch h ?p ?ctl) \<le> rem ?p"
    by (rule step_rem_dispatch)
  moreover have "rem ?p \<le> rem p" by (simp add: rem_def)
  ultimately show ?thesis using True
    by (simp add: parse_def one_step_def readone_eq readone_rest_def)
next
  case False
  then show ?thesis
    by (auto simp: parse_def one_step_def readone_eq split: option.splits)
qed

lemma step_rem_child_returned: "step_rem (child_returned fr v p) \<le> Suc (rem p)"
  by (cases fr) auto

text \<open>
  What a call of \<^verbatim>\<open>parse_one\<close> does: it returns a value, returns the sentinel
  \<^verbatim>\<open>notEnoughData\<close>, or raises.
\<close>

datatype ('v, 'x) outcome = Value 'v | NotEnoughData | Raised 'x

text \<open>
  \<^verbatim>\<open>self._gen.send(None)\<close>: the generator chain runs until it yields, returns or raises.
  \<open>st\<close> are the aggregates suspended in \<^verbatim>\<open>yield from parse()\<close>, innermost first. A
  value returned with no aggregate left is the \<^verbatim>\<open>StopIteration\<close> of the top-level
  \<^verbatim>\<open>parse\<close>; then, and on any exception, \<^verbatim>\<open>parse_one\<close> sets \<^verbatim>\<open>_gen\<close> to \<^verbatim>\<open>None\<close>.
\<close>

function run ::
  "'f host \<Rightarrow> ('f, 'r) frame list \<Rightarrow> ('f, 'e, 'r) step
     \<Rightarrow> (('f, 'r) pyval, 'e exn) outcome \<times> ('f, 'e, 'r) parser" where
  "run h st (Yielded r p) = (NotEnoughData, p\<lparr>gen := Some (r, st)\<rparr>)"
| "run h st (Raises x p) = (Raised x, p\<lparr>gen := None\<rparr>)"
| "run h st (Descend fr p) = run h (fr # st) (parse h p)"
| "run h [] (Returned v p) = (Value v, p\<lparr>gen := None\<rparr>)"
| "run h (fr # st) (Returned v p) = run h st (child_returned fr v p)"
  by pat_completeness auto
termination
proof (relation "measures [\<lambda>(h, st, s). step_rem s,
    \<lambda>(h, st, s). 2 * length st + (case s of Returned v p \<Rightarrow> 1 | _ \<Rightarrow> 0)]", goal_cases)
  case 1
  show ?case by simp
next
  case (2 h st fr p)
  show ?case using step_rem_parse[of h p] by simp
next
  case (3 h fr st v p)
  show ?case using step_rem_child_returned[of fr v p]
    by (cases "child_returned fr v p") auto
qed

text \<open>\<^verbatim>\<open>parse_one\<close>: a new top-level \<^verbatim>\<open>parse()\<close>, or the suspended chain resumed.\<close>

definition parse_one ::
  "'f host \<Rightarrow> ('f, 'e, 'r) parser \<Rightarrow> (('f, 'r) pyval, 'e exn) outcome \<times> ('f, 'e, 'r) parser" where
  "parse_one h p =
     (case gen p of
        None \<Rightarrow> run h [] (parse h p)
      | Some (r, st) \<Rightarrow> run h st (resume h p r))"

text \<open>
  The owner's operations on one parser, for statements about every sequence of them:
  buffer appends, the encoding setter and \<^verbatim>\<open>parse_one\<close>.
\<close>

datatype op = Feed bytes | Set_encoding "string option" | Parse_one

fun apply_op :: "'f host \<Rightarrow> ('f, 'e, 'r) parser \<Rightarrow> op \<Rightarrow> ('f, 'e, 'r) parser" where
  "apply_op h p (Feed data) = feed p data"
| "apply_op h p (Set_encoding val) = set_encoding p val"
| "apply_op h p Parse_one = snd (parse_one h p)"

text \<open>The outcomes of the \<^verbatim>\<open>parse_one\<close> calls of a sequence, in order.\<close>

fun outcomes ::
  "'f host \<Rightarrow> ('f, 'e, 'r) parser \<Rightarrow> op list \<Rightarrow> (('f, 'r) pyval, 'e exn) outcome list" where
  "outcomes h p [] = []"
| "outcomes h p (Parse_one # ops) = fst (parse_one h p) # outcomes h (snd (parse_one h p)) ops"
| "outcomes h p (x # ops) = outcomes h (apply_op h p x) ops"

text \<open>The bytes a sequence of operations appends.\<close>

fun fed :: "op list \<Rightarrow> bytes" where
  "fed [] = []"
| "fed (Feed data # ops) = data @ fed ops"
| "fed (x # ops) = fed ops"

text \<open>
  The owner feeds chunks one at a time and calls \<^verbatim>\<open>parse_one\<close> once after each.
\<close>

fun chunked :: "bytes list \<Rightarrow> op list" where
  "chunked [] = []"
| "chunked (c # cs) = Feed c # Parse_one # chunked cs"

text \<open>What the calls delivered: the outcomes other than the not-enough-data sentinel.\<close>

definition got :: "('v, 'x) outcome list \<Rightarrow> ('v, 'x) outcome list" where
  "got os = filter (\<lambda>x. x \<noteq> NotEnoughData) os"

text \<open>
  A host and two parsers for the closed instances below: the codec \<^verbatim>\<open>latin-1\<close> (each
  byte is the code point of the same number) and no other, and a \<^verbatim>\<open>float\<close> that reads
  integer literals only; the callbacks return their argument.
\<close>

definition latin1_host :: "int host" where
  "latin1_host =
     \<lparr> py_float = py_int,
       py_decode = (\<lambda>enc errors b.
         if enc = ''latin-1'' then Inr (map of_char b) else Inl LookupError) \<rparr>"

definition demo :: "(int, errmsg, pystr) parser" where
  "demo = init id id None None"

definition demo_latin1 :: "(int, errmsg, pystr) parser" where
  "demo_latin1 = init id id (Some ''latin-1'') None"

section \<open>Predicates and maps for the proofs\<close>

text \<open>
  A protocol error is raised only by \<^verbatim>\<open>raise self.error(...)\<close> or by \<^verbatim>\<open>raise self._err\<close>:
  whenever a step or a reader raises one, \<^verbatim>\<open>_err\<close> holds it.
\<close>

fun raises_ok :: "('f, 'e, 'r) step \<Rightarrow> bool" where
  "raises_ok (Raises (Protocol e) p) = (err p = Some e)"
| "raises_ok s = True"

fun threw_ok :: "('a, ('f, 'e, 'r) parser, 'e exn) reading \<Rightarrow> bool" where
  "threw_ok (Threw (Protocol e) p) = (err p = Some e)"
| "threw_ok rd = True"

text \<open>The number of \<^verbatim>\<open>parse_one\<close> calls in a sequence of operations.\<close>

definition calls :: "op list \<Rightarrow> nat" where
  "calls ops = length (filter (\<lambda>x. x = Parse_one) ops)"

text \<open>
  The invariant: the cursor is within the buffer, and a parser suspended in \<^verbatim>\<open>readone\<close>
  waits for at least one byte.
\<close>

fun reader_ok :: "reader \<Rightarrow> bool" where
  "reader_ok (In_readone size') = (1 \<le> size')"
| "reader_ok r = True"

definition cursor_ok :: "('f, 'e, 'r) parser \<Rightarrow> bool" where
  "cursor_ok p =
     (pos p \<le> length (buf p) \<and> (case gen p of None \<Rightarrow> True | Some (r, st) \<Rightarrow> reader_ok r))"

fun step_ok :: "('f, 'e, 'r) step \<Rightarrow> bool" where
  "step_ok (Returned v p) = (pos p \<le> length (buf p))"
| "step_ok (Yielded r p) = (pos p \<le> length (buf p) \<and> reader_ok r)"
| "step_ok (Raises x p) = (pos p \<le> length (buf p))"
| "step_ok (Descend fr p) = (pos p \<le> length (buf p))"

fun reading_ok :: "('a, ('f, 'e, 'r) parser, 'e exn) reading \<Rightarrow> bool" where
  "reading_ok (Done x p) = (pos p \<le> length (buf p))"
| "reading_ok (Blocked n) = True"
| "reading_ok (Threw x p) = (pos p \<le> length (buf p))"

text \<open>A change of the parser applied to the parser a reader or a step ends with.\<close>

fun map_reading ::
  "(('f, 'e, 'r) parser \<Rightarrow> ('f, 'e, 'r) parser)
     \<Rightarrow> ('a, ('f, 'e, 'r) parser, 'e exn) reading \<Rightarrow> ('a, ('f, 'e, 'r) parser, 'e exn) reading" where
  "map_reading f (Done x p) = Done x (f p)"
| "map_reading f (Blocked n) = Blocked n"
| "map_reading f (Threw x p) = Threw x (f p)"

fun map_step ::
  "(('f, 'e, 'r) parser \<Rightarrow> ('f, 'e, 'r) parser) \<Rightarrow> ('f, 'e, 'r) step \<Rightarrow> ('f, 'e, 'r) step" where
  "map_step f (Returned v p) = Returned v (f p)"
| "map_step f (Yielded r p) = Yielded r (f p)"
| "map_step f (Raises x p) = Raises x (f p)"
| "map_step f (Descend fr p) = Descend fr (f p)"

fun is_descend :: "('f, 'e, 'r) step \<Rightarrow> bool" where
  "is_descend (Descend fr p) = True"
| "is_descend s = False"

section \<open>Lines and payloads that are wholly in the buffer\<close>

lemma CR_neq_LF [simp]: "CR \<noteq> LF" "LF \<noteq> CR"
  by (simp_all add: CR_def LF_def)

lemma crlf_index_line:
  "crlf_index line = None \<Longrightarrow> crlf_index (line @ CR # LF # rest) = Some (length line)"
  by (induction line rule: crlf_index.induct) (auto split: if_splits)

lemma find_crlf_line:
  assumes "crlf_index line = None"
  shows "find_crlf (pre @ line @ CRLF @ rest) (length pre) = int (length pre + length line)"
  using crlf_index_line[OF assms, of rest] by (simp add: find_crlf_def CRLF_def)

lemma pyslice_mid:
  "a = int (length pre) \<Longrightarrow> b = int (length pre + length xs) \<Longrightarrow>
   pyslice (pre @ xs @ ys) a b = xs"
proof -
  assume a: "a = int (length pre)" and b: "b = int (length pre + length xs)"
  have "clamp (length (pre @ xs @ ys)) a = length pre"
    unfolding a by (simp add: clamp_def)
  moreover have "clamp (length (pre @ xs @ ys)) b = length pre + length xs"
    unfolding b by (simp only: clamp_def nat_int) simp
  ultimately show ?thesis by (simp add: pyslice_def)
qed

lemma pydel_prefix: "b = int (length xs) \<Longrightarrow> pydel (xs @ ys) b = ys"
  by (simp add: pydel_def clamp_def)

lemma readline_line:
  assumes "pos p = length pre" "buf p = pre @ line @ CRLF @ rest" "crlf_index line = None"
  shows "readline p = Done line (p\<lparr>pos := 0, buf := rest\<rparr>)"
proof -
  let ?o = "int (length pre + length line)"
  have f: "find_crlf (buf p) (pos p) = ?o"
    using assms find_crlf_line[of line pre rest] by simp
  have s: "pyslice (buf p) (int (pos p)) ?o = line"
    unfolding assms(1,2) by (rule pyslice_mid) simp_all
  have "pydel ((pre @ line @ CRLF) @ rest) (?o + 2) = rest"
    by (rule pydel_prefix) (simp add: CRLF_def)
  then have d: "pydel (buf p) (?o + 2) = rest"
    using assms(2) by simp
  have "readline p = readline_rest p ?o"
    by (simp only: readline_eq f) simp
  then show ?thesis
    by (simp only: readline_rest_def s d)
qed

lemma readline_size_payload:
  assumes "pos p = 0" "buf p = bs @ CRLF @ rest"
  shows "readline_size p (int (length bs)) = Done bs (p\<lparr>pos := 0, buf := rest\<rparr>)"
proof -
  let ?n = "int (length bs)"
  have a: "pyslice (buf p) (int (pos p) + ?n) (int (pos p) + ?n + 2) = CRLF"
    unfolding assms by (rule pyslice_mid[where ys = rest]) (simp_all add: CRLF_def)
  have "pyslice ([] @ bs @ CRLF @ rest) (int (pos p)) (int (pos p) + ?n) = bs"
    by (rule pyslice_mid) (simp_all add: assms)
  then have b: "pyslice (buf p) (int (pos p)) (int (pos p) + ?n) = bs"
    using assms(2) by simp
  have "pydel ((bs @ CRLF) @ rest) (int (pos p) + ?n + 2) = rest"
    by (rule pydel_prefix) (simp add: CRLF_def assms)
  then have d: "pydel (buf p) (int (pos p) + ?n + 2) = rest"
    using assms(2) by simp
  have c: "\<not> int (length (buf p)) < ?n + 2 + int (pos p)"
    using assms by (simp add: CRLF_def)
  have "readline_size p ?n = readline_size_rest p ?n"
    using c by (simp only: readline_size_def if_False)
  also have "\<dots> = readline_rest p (int (pos p) + ?n)"
    by (simp only: readline_size_rest_def Let_def a) simp
  finally show ?thesis
    by (simp only: readline_rest_def b d)
qed

lemma parse_frame:
  assumes "err p = None" "pos p = 0" "crlf_index line = None"
    "map_of (protocols p) [c] = Some fp"
  shows "parse h (p\<lparr>buf := c # line @ CRLF @ rest\<rparr>) = after_line h fp (p\<lparr>buf := rest\<rparr>) line"
proof -
  let ?p = "p\<lparr>buf := c # line @ CRLF @ rest\<rparr>"
  let ?p1 = "?p\<lparr>pos := pos ?p + 1\<rparr>"
  have one: "readone ?p = Done [c] ?p1"
    using assms(2) by (simp add: readone_eq readone_rest_def pyslice_def clamp_def)
  have "readline ?p1 = Done line (?p1\<lparr>pos := 0, buf := rest\<rparr>)"
    using assms(2,3) by (intro readline_line[where pre = "[c]"]) simp_all
  moreover have "?p1\<lparr>pos := 0, buf := rest\<rparr> = p\<lparr>buf := rest\<rparr>"
    using assms(2) by (cases p) simp
  ultimately have line: "readline ?p1 = Done line (p\<lparr>buf := rest\<rparr>)" by simp
  have "parse h ?p = one_step h ?p (readone ?p)"
    using assms(1) by (simp add: parse_def)
  also have "\<dots> = dispatch h ?p1 [c]"
    by (simp only: one one_step_def reading.case)
  also have "\<dots> = line_step h fp ?p1 (readline ?p1)"
    using assms(4) by (simp add: dispatch_def)
  also have "\<dots> = after_line h fp (p\<lparr>buf := rest\<rparr>) line"
    by (simp only: line line_step_def reading.case)
  finally show ?thesis .
qed

lemma run_top_Returned: "gen p = None \<Longrightarrow> run h [] (Returned v p) = (Value v, p)"
  by (cases p) simp

lemma run_top_Raises: "gen p = None \<Longrightarrow> run h [] (Raises x p) = (Raised x, p)"
  by (cases p) simp

lemma map_of_tables:
  "protocols p = PROTOCOLS \<or> protocols p = PROTOCOLS_DECODE \<Longrightarrow>
   map_of (protocols p) ''-'' = Some Parse_error \<and>
   map_of (protocols p) '':'' = Some Parse_int \<and>
   map_of (protocols p) ''('' = Some Parse_int \<and>
   map_of (protocols p) '','' = Some Parse_float \<and>
   map_of (protocols p) ''*'' = Some Parse_mutibulk \<and>
   map_of (protocols p) ''~'' = Some Parse_set \<and>
   map_of (protocols p) ''%'' = Some Parse_dict \<and>
   map_of (protocols p) ''>'' = Some Parse_vector"
  by (auto simp: PROTOCOLS_def PROTOCOLS_DECODE_def)

section \<open>Verbatim frames without a colon\<close>

text \<open>
  C9. A verbatim frame \<^verbatim>\<open>=N\r\n\<close> whose \<open>N\<close> payload bytes hold no colon (for either
  dispatch table): \<^verbatim>\<open>parse_one\<close> raises a bare \<^verbatim>\<open>ValueError\<close>, not a value of
  \<^verbatim>\<open>protocolError\<close>; the frame is consumed, \<^verbatim>\<open>_err\<close> stays unset and \<^verbatim>\<open>_gen\<close> is
  \<^verbatim>\<open>None\<close>, so the next call does not re-raise: it is a new top-level parse, starting
  with \<^verbatim>\<open>readone\<close> on the bytes that follow.
\<close>

theorem verbatim_without_colon_raises_bare:
  assumes clean: "gen p = None" "err p = None" "pos p = 0"
    and tab: "protocols p = PROTOCOLS \<or> protocols p = PROTOCOLS_DECODE"
    and tok: "crlf_index tok = None" "py_int tok = Some (int (length vbt))"
    and colon: "CHR '':'' \<notin> set vbt"
  shows "parse_one h (p\<lparr>buf := ''='' @ tok @ CRLF @ vbt @ CRLF @ rest\<rparr>)
           = (Raised (Bare ValueError), p\<lparr>buf := rest\<rparr>)
         \<and> err (p\<lparr>buf := rest\<rparr>) = None
         \<and> parse_one h (p\<lparr>buf := rest\<rparr>)
           = run h [] (one_step h (p\<lparr>buf := rest\<rparr>) (readone (p\<lparr>buf := rest\<rparr>)))"
proof -
  let ?q = "p\<lparr>buf := vbt @ CRLF @ rest\<rparr>"
  from tab obtain fp sp where fp: "map_of (protocols p) ''='' = Some fp"
    and sp: "after_line h fp ?q tok = parse_sized h sp ?q tok"
      "sp = Sized_verbatim \<or> sp = Sized_verbatim_decode"
    by (auto simp: PROTOCOLS_def PROTOCOLS_DECODE_def)
  have sc: "split_colon vbt = None" using colon by (induction vbt) auto
  have rl: "readline_size ?q (int (length vbt)) = Done vbt (?q\<lparr>pos := 0, buf := rest\<rparr>)"
    using clean by (intro readline_size_payload) simp_all
  have q: "?q\<lparr>pos := 0, buf := rest\<rparr> = p\<lparr>buf := rest\<rparr>"
    using clean by (cases p) simp
  have "parse h (p\<lparr>buf := CHR ''='' # tok @ CRLF @ vbt @ CRLF @ rest\<rparr>) = after_line h fp ?q tok"
    using clean tok fp by (intro parse_frame) simp_all
  also have "\<dots> = Raises (Bare ValueError) (p\<lparr>buf := rest\<rparr>)"
    using sp tok(2) sc by (auto simp: parse_sized_def readint_def rl q size_step_def)
  finally show ?thesis using clean
    by (simp add: parse_one_def run_top_Raises parse_def)
qed

theorem verbatim_without_colon_raises_bare_witness:
  "parse_one latin1_host (demo\<lparr>buf := ''='' @ ''5'' @ CRLF @ ''abcde'' @ CRLF @ ''+OK'' @ CRLF\<rparr>)
     = (Raised (Bare ValueError), demo\<lparr>buf := ''+OK'' @ CRLF\<rparr>)
   \<and> err (demo\<lparr>buf := ''+OK'' @ CRLF\<rparr>) = None
   \<and> fst (parse_one latin1_host (demo\<lparr>buf := ''+OK'' @ CRLF\<rparr>)) = Value (PBytes ''OK'')"
proof -
  have a: "gen demo = None" "err demo = None" "pos demo = 0"
    "protocols demo = PROTOCOLS \<or> protocols demo = PROTOCOLS_DECODE"
    by (simp_all add: demo_def init_def truthy_def)
  have b: "crlf_index ''5'' = None" "py_int ''5'' = Some (int (length ''abcde''))"
    "CHR '':'' \<notin> set ''abcde''"
    by code_simp+
  have c: "fst (parse_one latin1_host (demo\<lparr>buf := ''+OK'' @ CRLF\<rparr>)) = Value (PBytes ''OK'')"
    by code_simp
  show ?thesis
    using verbatim_without_colon_raises_bare[OF a b, of latin1_host "''+OK'' @ CRLF"] c
    by simp
qed

section \<open>The integer frames\<close>

lemma parse_one_frame:
  assumes "gen p = None" "err p = None" "pos p = 0" "crlf_index line = None"
    "map_of (protocols p) [c] = Some fp"
  shows "parse_one h (p\<lparr>buf := c # line @ CRLF @ rest\<rparr>)
           = run h [] (after_line h fp (p\<lparr>buf := rest\<rparr>) line)"
proof -
  have "parse_one h (p\<lparr>buf := c # line @ CRLF @ rest\<rparr>)
          = run h [] (parse h (p\<lparr>buf := c # line @ CRLF @ rest\<rparr>))"
    using assms(1) by (simp add: parse_one_def)
  then show ?thesis
    by (simp only: parse_frame[OF assms(2-5)])
qed

lemma run_top_Raises_error:
  "gen p = None \<Longrightarrow> error p msg = (e, p') \<Longrightarrow>
   run h [] (Raises (Protocol e) p') = (Raised (Protocol e), p\<lparr>err := Some e\<rparr>)"
  by (cases p) (auto simp: error_def)

subsection \<open>The integer conversion on decimal numerals\<close>

lemma of_char_digit: "(d::nat) < 10 \<Longrightarrow> (of_char (char_of (48 + d)) :: nat) = 48 + d"
  by simp












lemma crlf_index_no_CR: "CR \<notin> set xs \<Longrightarrow> crlf_index xs = None"
  by (induction xs rule: crlf_index.induct) auto








section \<open>Wire violations\<close>

lemma int_error_step:
  assumes "gen p = None" "py_int tok = None"
  shows "run h [] (case readint p tok of Inl (x, p') \<Rightarrow> Raises x p' | Inr n \<Rightarrow> k n)
           = (Raised (Protocol (protocolError p (Msg_int_value_error tok))),
              p\<lparr>err := Some (protocolError p (Msg_int_value_error tok))\<rparr>)"
  using assms by (cases p) (simp add: readint_def error_def)

lemma after_line_int_error:
  assumes "gen p = None" "py_int tok = None"
    "fp \<in> {Parse_int, Parse_bulk, Parse_bulk_decode, Parse_verbatim, Parse_verbatim_decode,
            Parse_mutibulk, Parse_dict, Parse_set, Parse_vector}"
  shows "run h [] (after_line h fp p tok)
           = (Raised (Protocol (protocolError p (Msg_int_value_error tok))),
              p\<lparr>err := Some (protocolError p (Msg_int_value_error tok))\<rparr>)"
  using assms(3) int_error_step[OF assms(1,2), of h]
  by (auto simp: parse_int_def parse_sized_def parse_mutibulk_def parse_dict_def parse_set_def)

lemma map_of_sized:
  "protocols p = PROTOCOLS \<or> protocols p = PROTOCOLS_DECODE \<Longrightarrow>
   (map_of (protocols p) ''$'' = Some Parse_bulk \<or>
    map_of (protocols p) ''$'' = Some Parse_bulk_decode) \<and>
   (map_of (protocols p) ''='' = Some Parse_verbatim \<or>
    map_of (protocols p) ''='' = Some Parse_verbatim_decode)"
  by (auto simp: PROTOCOLS_def PROTOCOLS_DECODE_def)

lemma tag_parsers:
  assumes "protocols p = PROTOCOLS \<or> protocols p = PROTOCOLS_DECODE"
    "tag \<in> {'':'', ''('', ''$'', ''='', ''*'', ''%'', ''~'', ''>''}"
  shows "\<exists>c fp. tag = [c] \<and> map_of (protocols p) [c] = Some fp \<and>
           fp \<in> {Parse_int, Parse_bulk, Parse_bulk_decode, Parse_verbatim, Parse_verbatim_decode,
            Parse_mutibulk, Parse_dict, Parse_set, Parse_vector}"
proof -
  note t = map_of_tables[OF assms(1)]
  note s = map_of_sized[OF assms(1)]
  from assms(2) have "tag = '':'' \<or> tag = ''('' \<or> tag = ''$'' \<or> tag = ''='' \<or> tag = ''*''
      \<or> tag = ''%'' \<or> tag = ''~'' \<or> tag = ''>''"
    by simp
  then show ?thesis
  proof (elim disjE)
    assume "tag = '':''"
    then show ?thesis using t by (intro exI[of _ "CHR '':''"] exI[of _ Parse_int]) simp
  next
    assume "tag = ''(''"
    then show ?thesis using t by (intro exI[of _ "CHR ''(''"] exI[of _ Parse_int]) simp
  next
    assume g: "tag = ''$''"
    from s obtain fp where "map_of (protocols p) ''$'' = Some fp"
      "fp = Parse_bulk \<or> fp = Parse_bulk_decode" by blast
    then show ?thesis using g by (intro exI[of _ "CHR ''$''"] exI[of _ fp]) auto
  next
    assume g: "tag = ''=''"
    from s obtain fp where "map_of (protocols p) ''='' = Some fp"
      "fp = Parse_verbatim \<or> fp = Parse_verbatim_decode" by blast
    then show ?thesis using g by (intro exI[of _ "CHR ''=''"] exI[of _ fp]) auto
  next
    assume "tag = ''*''"
    then show ?thesis using t by (intro exI[of _ "CHR ''*''"] exI[of _ Parse_mutibulk]) simp
  next
    assume "tag = ''%''"
    then show ?thesis using t by (intro exI[of _ "CHR ''%''"] exI[of _ Parse_dict]) simp
  next
    assume "tag = ''~''"
    then show ?thesis using t by (intro exI[of _ "CHR ''~''"] exI[of _ Parse_set]) simp
  next
    assume "tag = ''>''"
    then show ?thesis using t by (intro exI[of _ "CHR ''>''"] exI[of _ Parse_vector]) simp
  qed
qed

lemma violation_int:
  assumes clean: "gen p = None" "err p = None" "pos p = 0"
    and tab: "protocols p = PROTOCOLS \<or> protocols p = PROTOCOLS_DECODE"
    and tag: "tag \<in> {'':'', ''('', ''$'', ''='', ''*'', ''%'', ''~'', ''>''}"
    and tok: "crlf_index tok = None" "py_int tok = None"
  shows "parse_one h (p\<lparr>buf := tag @ tok @ CRLF @ rest\<rparr>)
           = (Raised (Protocol (protocolError p (Msg_int_value_error tok))),
              p\<lparr>buf := rest, err := Some (protocolError p (Msg_int_value_error tok))\<rparr>)"
proof -
  from tag_parsers[OF tab tag] obtain c fp where c: "tag = [c]"
    "map_of (protocols p) [c] = Some fp"
    "fp \<in> {Parse_int, Parse_bulk, Parse_bulk_decode, Parse_verbatim, Parse_verbatim_decode,
            Parse_mutibulk, Parse_dict, Parse_set, Parse_vector}"
    by blast
  have "parse_one h (p\<lparr>buf := c # tok @ CRLF @ rest\<rparr>)
          = run h [] (after_line h fp (p\<lparr>buf := rest\<rparr>) tok)"
    by (rule parse_one_frame[OF clean tok(1) c(2)])
  also have "\<dots> = (Raised (Protocol (protocolError p (Msg_int_value_error tok))),
              p\<lparr>buf := rest, err := Some (protocolError p (Msg_int_value_error tok))\<rparr>)"
    using after_line_int_error[of "p\<lparr>buf := rest\<rparr>" tok fp h] clean(1) tok(2) c(3) by simp
  finally show ?thesis using c(1) by simp
qed

lemma violation_float:
  assumes clean: "gen p = None" "err p = None" "pos p = 0"
    and tab: "protocols p = PROTOCOLS \<or> protocols p = PROTOCOLS_DECODE"
    and tok: "crlf_index tok = None" "py_float h tok = None"
  shows "parse_one h (p\<lparr>buf := '','' @ tok @ CRLF @ rest\<rparr>)
           = (Raised (Protocol (protocolError p (Msg_float_value_error tok))),
              p\<lparr>buf := rest, err := Some (protocolError p (Msg_float_value_error tok))\<rparr>)"
proof -
  have m: "map_of (protocols p) '','' = Some Parse_float"
    using map_of_tables[OF tab] by simp
  have "parse_one h (p\<lparr>buf := CHR '','' # tok @ CRLF @ rest\<rparr>)
          = run h [] (after_line h Parse_float (p\<lparr>buf := rest\<rparr>) tok)"
    by (rule parse_one_frame[OF clean tok(1) m])
  also have "\<dots> = (Raised (Protocol (protocolError p (Msg_float_value_error tok))),
              p\<lparr>buf := rest, err := Some (protocolError p (Msg_float_value_error tok))\<rparr>)"
    using clean(1) tok(2) by (cases p) (simp add: parse_float_def readfloat_def error_def)
  finally show ?thesis by simp
qed

lemma violation_tag:
  assumes clean: "gen p = None" "err p = None" "pos p = 0"
    and c: "map_of (protocols p) [c] = None"
  shows "parse_one h (p\<lparr>buf := c # rest\<rparr>)
           = (Raised (Protocol (protocolError p (Msg_protocol_error [c]))),
              p\<lparr>buf := c # rest, pos := 1, err := Some (protocolError p (Msg_protocol_error [c]))\<rparr>)"
proof -
  let ?p = "p\<lparr>buf := c # rest\<rparr>"
  have one: "readone ?p = Done [c] (?p\<lparr>pos := 1\<rparr>)"
    using clean(3) by (simp add: readone_eq readone_rest_def pyslice_def clamp_def)
  have "parse h ?p = dispatch h (?p\<lparr>pos := 1\<rparr>) [c]"
    using clean(2) by (simp add: parse_def one one_step_def)
  also have "\<dots> = Raises (Protocol (protocolError p (Msg_protocol_error [c])))
      (p\<lparr>buf := c # rest, pos := 1, err := Some (protocolError p (Msg_protocol_error [c]))\<rparr>)"
    using c by (simp add: dispatch_def error_def)
  finally show ?thesis
    using clean(1) by (simp add: parse_one_def run_top_Raises)
qed

lemma readline_size_no_crlf:
  assumes "pos p = 0" "buf p = bs @ x # y # rest" "[x, y] \<noteq> CRLF"
  shows "readline_size p (int (length bs))
           = Threw (Protocol (protocolError p Msg_expected_crlf))
               (p\<lparr>err := Some (protocolError p Msg_expected_crlf)\<rparr>)"
proof -
  let ?n = "int (length bs)"
  have "pyslice (bs @ [x, y] @ rest) (int (pos p) + ?n) (int (pos p) + ?n + 2) = [x, y]"
    by (rule pyslice_mid) (simp_all add: assms)
  then have a: "pyslice (buf p) (int (pos p) + ?n) (int (pos p) + ?n + 2) \<noteq> CRLF"
    using assms(2,3) by simp
  have c: "\<not> int (length (buf p)) < ?n + 2 + int (pos p)"
    using assms by simp
  have "readline_size p ?n = readline_size_rest p ?n"
    using c by (simp only: readline_size_def if_False)
  also have "\<dots> = Threw (Protocol (protocolError p Msg_expected_crlf))
               (p\<lparr>err := Some (protocolError p Msg_expected_crlf)\<rparr>)"
    using a by (simp add: readline_size_rest_def Let_def error_def)
  finally show ?thesis .
qed

lemma violation_payload:
  assumes clean: "gen p = None" "err p = None" "pos p = 0"
    and tab: "protocols p = PROTOCOLS \<or> protocols p = PROTOCOLS_DECODE"
    and tag: "tag \<in> {''$'', ''=''}"
    and tok: "crlf_index tok = None" "py_int tok = Some (int (length bs))"
    and xy: "[x, y] \<noteq> CRLF"
  shows "parse_one h (p\<lparr>buf := tag @ tok @ CRLF @ bs @ x # y # rest\<rparr>)
           = (Raised (Protocol (protocolError p Msg_expected_crlf)),
              p\<lparr>buf := bs @ x # y # rest, err := Some (protocolError p Msg_expected_crlf)\<rparr>)"
proof -
  let ?q = "p\<lparr>buf := bs @ x # y # rest\<rparr>"
  from tab tag obtain c fp sp where c: "tag = [c]" "map_of (protocols p) [c] = Some fp"
    and sp: "after_line h fp ?q tok = parse_sized h sp ?q tok"
    by (auto simp: PROTOCOLS_def PROTOCOLS_DECODE_def)
  have rl: "readline_size ?q (int (length bs))
      = Threw (Protocol (protocolError ?q Msg_expected_crlf))
          (?q\<lparr>err := Some (protocolError ?q Msg_expected_crlf)\<rparr>)"
    using clean(3) xy by (intro readline_size_no_crlf) simp_all
  have "parse_one h (p\<lparr>buf := c # tok @ CRLF @ bs @ x # y # rest\<rparr>)
          = run h [] (after_line h fp ?q tok)"
    by (rule parse_one_frame[OF clean tok(1) c(2)])
  also have "\<dots> = run h [] (Raises (Protocol (protocolError p Msg_expected_crlf))
      (?q\<lparr>err := Some (protocolError p Msg_expected_crlf)\<rparr>))"
    using tok(2) by (simp add: sp parse_sized_def readint_def rl size_step_def)
  also have "\<dots> = (Raised (Protocol (protocolError p Msg_expected_crlf)),
      ?q\<lparr>err := Some (protocolError p Msg_expected_crlf)\<rparr>)"
    using clean(1) by (intro run_top_Raises) simp
  finally show ?thesis using c(1) by simp
qed

text \<open>
  C4. On a parser with no parse in progress, each wire violation makes \<^verbatim>\<open>parse_one\<close>
  raise the value \<^verbatim>\<open>protocolError\<close> made, the same value being stored in \<^verbatim>\<open>_err\<close>:
  \<^item> a token \<^verbatim>\<open>int\<close> rejects as the number of a \<^verbatim>\<open>:\<close> or \<^verbatim>\<open>(\<close> frame or as the length of
    a \<^verbatim>\<open>$\<close>, \<^verbatim>\<open>=\<close>, \<^verbatim>\<open>*\<close>, \<^verbatim>\<open>%\<close>, \<^verbatim>\<open>~\<close> or \<^verbatim>\<open>>\<close> frame;
  \<^item> a token \<^verbatim>\<open>float\<close> rejects in a \<^verbatim>\<open>,\<close> frame;
  \<^item> a first byte that is not a key of the dispatch table;
  \<^item> a bulk or verbatim payload of the declared length followed by two bytes that are
    not CR LF.
\<close>

theorem wire_violation_raises_protocol_error:
  assumes clean: "gen p = None" "err p = None" "pos p = 0"
    and tab: "protocols p = PROTOCOLS \<or> protocols p = PROTOCOLS_DECODE"
  shows
    "(tag \<in> {'':'', ''('', ''$'', ''='', ''*'', ''%'', ''~'', ''>''}
        \<and> crlf_index tok = None \<and> py_int tok = None \<longrightarrow>
      parse_one h (p\<lparr>buf := tag @ tok @ CRLF @ rest\<rparr>)
        = (Raised (Protocol (protocolError p (Msg_int_value_error tok))),
           p\<lparr>buf := rest, err := Some (protocolError p (Msg_int_value_error tok))\<rparr>))
   \<and> (crlf_index tok = None \<and> py_float h tok = None \<longrightarrow>
      parse_one h (p\<lparr>buf := '','' @ tok @ CRLF @ rest\<rparr>)
        = (Raised (Protocol (protocolError p (Msg_float_value_error tok))),
           p\<lparr>buf := rest, err := Some (protocolError p (Msg_float_value_error tok))\<rparr>))
   \<and> (map_of (protocols p) [c] = None \<longrightarrow>
      parse_one h (p\<lparr>buf := c # rest\<rparr>)
        = (Raised (Protocol (protocolError p (Msg_protocol_error [c]))),
           p\<lparr>buf := c # rest, pos := 1,
             err := Some (protocolError p (Msg_protocol_error [c]))\<rparr>))
   \<and> (tag \<in> {''$'', ''=''} \<and> crlf_index tok = None \<and> py_int tok = Some (int (length bs))
        \<and> [x, y] \<noteq> CRLF \<longrightarrow>
      parse_one h (p\<lparr>buf := tag @ tok @ CRLF @ bs @ x # y # rest\<rparr>)
        = (Raised (Protocol (protocolError p Msg_expected_crlf)),
           p\<lparr>buf := bs @ x # y # rest, err := Some (protocolError p Msg_expected_crlf)\<rparr>))"
proof (intro conjI impI)
  assume "tag \<in> {'':'', ''('', ''$'', ''='', ''*'', ''%'', ''~'', ''>''}
        \<and> crlf_index tok = None \<and> py_int tok = None"
  then show "parse_one h (p\<lparr>buf := tag @ tok @ CRLF @ rest\<rparr>)
        = (Raised (Protocol (protocolError p (Msg_int_value_error tok))),
           p\<lparr>buf := rest, err := Some (protocolError p (Msg_int_value_error tok))\<rparr>)"
    using violation_int[OF clean tab, of tag tok h rest] by (elim conjE)
next
  assume "crlf_index tok = None \<and> py_float h tok = None"
  then show "parse_one h (p\<lparr>buf := '','' @ tok @ CRLF @ rest\<rparr>)
        = (Raised (Protocol (protocolError p (Msg_float_value_error tok))),
           p\<lparr>buf := rest, err := Some (protocolError p (Msg_float_value_error tok))\<rparr>)"
    using violation_float[OF clean tab, of tok h rest] by (elim conjE)
next
  assume "map_of (protocols p) [c] = None"
  then show "parse_one h (p\<lparr>buf := c # rest\<rparr>)
        = (Raised (Protocol (protocolError p (Msg_protocol_error [c]))),
           p\<lparr>buf := c # rest, pos := 1,
             err := Some (protocolError p (Msg_protocol_error [c]))\<rparr>)"
    by (rule violation_tag[OF clean])
next
  assume "tag \<in> {''$'', ''=''} \<and> crlf_index tok = None \<and> py_int tok = Some (int (length bs))
        \<and> [x, y] \<noteq> CRLF"
  then show "parse_one h (p\<lparr>buf := tag @ tok @ CRLF @ bs @ x # y # rest\<rparr>)
        = (Raised (Protocol (protocolError p Msg_expected_crlf)),
           p\<lparr>buf := bs @ x # y # rest, err := Some (protocolError p Msg_expected_crlf)\<rparr>)"
    using violation_payload[OF clean tab, of tag tok bs x y h rest] by (elim conjE)
qed

theorem wire_violation_raises_protocol_error_witness:
  "parse_one latin1_host (demo\<lparr>buf := ''*'' @ ''abc'' @ CRLF @ ''+OK'' @ CRLF\<rparr>)
     = (Raised (Protocol (Msg_int_value_error ''abc'')),
        demo\<lparr>buf := ''+OK'' @ CRLF, err := Some (Msg_int_value_error ''abc'')\<rparr>)
   \<and> parse_one latin1_host (demo\<lparr>buf := '','' @ ''abc'' @ CRLF @ ''+OK'' @ CRLF\<rparr>)
     = (Raised (Protocol (Msg_float_value_error ''abc'')),
        demo\<lparr>buf := ''+OK'' @ CRLF, err := Some (Msg_float_value_error ''abc'')\<rparr>)
   \<and> parse_one latin1_host (demo\<lparr>buf := CHR ''!'' # ''bad'' @ CRLF\<rparr>)
     = (Raised (Protocol (Msg_protocol_error ''!'')),
        demo\<lparr>buf := CHR ''!'' # ''bad'' @ CRLF, pos := 1, err := Some (Msg_protocol_error ''!'')\<rparr>)
   \<and> parse_one latin1_host (demo\<lparr>buf := ''$'' @ ''5'' @ CRLF @ ''hello'' @ CHR ''x'' # CHR ''y'' # ''+OK''\<rparr>)
     = (Raised (Protocol Msg_expected_crlf),
        demo\<lparr>buf := ''hello'' @ CHR ''x'' # CHR ''y'' # ''+OK'', err := Some Msg_expected_crlf\<rparr>)"
proof -
  have a: "gen demo = None" "err demo = None" "pos demo = 0"
    "protocols demo = PROTOCOLS \<or> protocols demo = PROTOCOLS_DECODE"
    by (simp_all add: demo_def init_def truthy_def)
  have b: "crlf_index ''abc'' = None" "py_int ''abc'' = None" "py_float latin1_host ''abc'' = None"
    "map_of (protocols demo) [CHR ''!''] = None"
    "crlf_index ''5'' = None" "py_int ''5'' = Some (int (length ''hello''))"
    "[CHR ''x'', CHR ''y''] \<noteq> CRLF"
    by code_simp+
  have c: "protocolError demo = id"
    by (simp add: demo_def init_def)
  show ?thesis
    using wire_violation_raises_protocol_error[OF a, of "''*''" "''abc''" latin1_host
        "''+OK'' @ CRLF" "CHR ''!''" "''hello''" "CHR ''x''" "CHR ''y''"]
      wire_violation_raises_protocol_error[OF a, of "''$''" "''5''" latin1_host
        "''+OK''" "CHR ''!''" "''hello''" "CHR ''x''" "CHR ''y''"]
      wire_violation_raises_protocol_error[OF a, of "''$''" "''5''" latin1_host
        "''bad'' @ CRLF" "CHR ''!''" "''hello''" "CHR ''x''" "CHR ''y''"]
      b c
    by simp
qed

section \<open>Error replies\<close>

text \<open>
  C5, as amended. For an error reply \<^verbatim>\<open>-<message>\r\n\<close> on a parser with no parse in
  progress, \<^verbatim>\<open>parse_one\<close> returns (it does not raise) \<^verbatim>\<open>replyError(t)\<close>, where \<open>t\<close> is the
  decoding, with the parser's encoding (\<^verbatim>\<open>utf8\<close> when none is set) and undecodable
  bytes replaced, of the message, or of the bytes \<^verbatim>\<open>Error\<close> when the message is empty.
  \<^verbatim>\<open>_err\<close> stays unset and \<^verbatim>\<open>_gen\<close> is \<^verbatim>\<open>None\<close>: the parser is the one it was, holding
  the bytes after the frame, so the next call parses the following frame.
\<close>

theorem error_reply_returned:
  assumes clean: "gen p = None" "err p = None" "pos p = 0"
    and tab: "protocols p = PROTOCOLS \<or> protocols p = PROTOCOLS_DECODE"
    and msg: "crlf_index msg = None"
    and dec: "py_decode h (if truthy (encoding p) then the (encoding p) else ''utf8'') ''replace''
                (if msg = [] then ''Error'' else msg) = Inr t"
  shows "parse_one h (p\<lparr>buf := ''-'' @ msg @ CRLF @ rest\<rparr>)
           = (Value (PError (replyError p t)), p\<lparr>buf := rest\<rparr>)
         \<and> err (p\<lparr>buf := rest\<rparr>) = None \<and> gen (p\<lparr>buf := rest\<rparr>) = None"
proof -
  have m: "map_of (protocols p) ''-'' = Some Parse_error"
    using map_of_tables[OF tab] by simp
  have "parse_one h (p\<lparr>buf := CHR ''-'' # msg @ CRLF @ rest\<rparr>)
          = run h [] (after_line h Parse_error (p\<lparr>buf := rest\<rparr>) msg)"
    by (rule parse_one_frame[OF clean msg m])
  also have "\<dots> = run h [] (Returned (PError (replyError p t)) (p\<lparr>buf := rest\<rparr>))"
    using dec by (auto simp: parse_error_def split: if_splits)
  also have "\<dots> = (Value (PError (replyError p t)), p\<lparr>buf := rest\<rparr>)"
    using clean(1) by (intro run_top_Returned) simp
  finally show ?thesis using clean by simp
qed

theorem error_reply_returned_witness:
  "parse_one latin1_host (demo_latin1\<lparr>buf := ''-'' @ ''ERR x'' @ CRLF @ '':1'' @ CRLF\<rparr>)
     = (Value (PError (map of_char ''ERR x'')), demo_latin1\<lparr>buf := '':1'' @ CRLF\<rparr>)
   \<and> err (demo_latin1\<lparr>buf := '':1'' @ CRLF\<rparr>) = None
   \<and> gen (demo_latin1\<lparr>buf := '':1'' @ CRLF\<rparr>) = None
   \<and> fst (parse_one latin1_host (demo_latin1\<lparr>buf := '':1'' @ CRLF\<rparr>)) = Value (PInt 1)"
proof -
  have a: "gen demo_latin1 = None" "err demo_latin1 = None" "pos demo_latin1 = 0"
    "protocols demo_latin1 = PROTOCOLS \<or> protocols demo_latin1 = PROTOCOLS_DECODE"
    by (simp_all add: demo_latin1_def init_def truthy_def)
  have b: "crlf_index ''ERR x'' = None" by code_simp
  have c: "py_decode latin1_host
      (if truthy (encoding demo_latin1) then the (encoding demo_latin1) else ''utf8'') ''replace''
      (if ''ERR x'' = [] then ''Error'' else ''ERR x'') = Inr (map of_char ''ERR x'')"
    by (simp add: demo_latin1_def init_def truthy_def latin1_host_def)
  have d: "replyError demo_latin1 = id"
    by (simp add: demo_latin1_def init_def)
  have e: "fst (parse_one latin1_host (demo_latin1\<lparr>buf := '':1'' @ CRLF\<rparr>)) = Value (PInt 1)"
    by code_simp
  show ?thesis
    using error_reply_returned[OF a b c, of "'':1'' @ CRLF"] d e by simp
qed

text \<open>
  C5 as stated fails on the error reply with the empty message, \<^verbatim>\<open>-\r\n\<close>: the value
  returned carries the text \<^verbatim>\<open>Error\<close>, not the empty message (\<^verbatim>\<open>val or b"Error"\<close>).
\<close>

theorem empty_error_reply_carries_Error:
  "fst (parse_one latin1_host (feed demo_latin1 (''-'' @ CRLF)))
     = Value (PError (map of_char ''Error''))
   \<and> fst (parse_one latin1_host (feed demo_latin1 (''-'' @ CRLF))) \<noteq> Value (PError [])"
  by code_simp

section \<open>Set replies\<close>

text \<open>
  C2. The claim fails on the code for every set reply with an element: on
  \<^verbatim>\<open>~1\r\n:1\r\n\<close> \<^verbatim>\<open>parse_one\<close> raises \<^verbatim>\<open>TypeError\<close>, where the array parser on
  \<^verbatim>\<open>*1\r\n:1\r\n\<close> returns the list of the child. Only \<^verbatim>\<open>~0\r\n\<close> (the empty set) and
  \<^verbatim>\<open>~-1\r\n\<close> (null) are parsed.
\<close>

theorem set_reply_raises_TypeError:
  "fst (parse_one latin1_host (feed demo (''~1'' @ CRLF @ '':1'' @ CRLF))) = Raised (Bare TypeError)
   \<and> fst (parse_one latin1_host (feed demo (''*1'' @ CRLF @ '':1'' @ CRLF))) = Value (PList [PInt 1])
   \<and> fst (parse_one latin1_host (feed demo (''~0'' @ CRLF))) = Value (PSet [])
   \<and> fst (parse_one latin1_host (feed demo (''~-1'' @ CRLF))) = Value PNone"
  by code_simp

section \<open>Chunking\<close>

text \<open>
  C1. The claim fails on the code: the reply \<^verbatim>\<open>+OK\r\n\<close> fed in one chunk is returned by
  the first \<^verbatim>\<open>parse_one\<close>; fed as \<^verbatim>\<open>+OK\r\<close> and then \<^verbatim>\<open>\n\<close>, with a \<^verbatim>\<open>parse_one\<close> after each
  chunk, both calls return the not-enough-data sentinel although the whole reply is in
  the buffer: the parser is still inside \<^verbatim>\<open>waitsome(5)\<close> with \<open>pos = 1\<close>, waiting for a
  buffer of 6 bytes.
\<close>

theorem reply_split_after_CR_is_not_delivered:
  "fst (parse_one latin1_host (feed demo (''+OK'' @ CRLF))) = Value (PBytes ''OK'')
   \<and> fst (parse_one latin1_host (feed demo (''+OK'' @ [CR]))) = NotEnoughData
   \<and> fst (parse_one latin1_host
         (feed (snd (parse_one latin1_host (feed demo (''+OK'' @ [CR])))) [LF])) = NotEnoughData
   \<and> buf (snd (parse_one latin1_host
         (feed (snd (parse_one latin1_host (feed demo (''+OK'' @ [CR])))) [LF]))) = ''+OK'' @ CRLF
   \<and> gen (snd (parse_one latin1_host
         (feed (snd (parse_one latin1_host (feed demo (''+OK'' @ [CR])))) [LF])))
       = Some (In_readline Parse_single 5, [])"
  by code_simp

section \<open>Bulk strings\<close>

lemma outcomes_chunk:
  "outcomes h p (chunked (c # cs))
     = fst (parse_one h (feed p c)) # outcomes h (snd (parse_one h (feed p c))) (chunked cs)"
  by simp

subsection \<open>A parser with nothing to read\<close>

lemma idle_start:
  assumes "gen p = None" "err p = None" "pos p = 0" "buf p = []"
  shows "parse_one h (feed p []) = (NotEnoughData, p\<lparr>gen := Some (In_readone 1, [])\<rparr>)"
  using assms by (simp add: parse_one_def feed_def parse_def readone_eq one_step_def waitany_def)

lemma idle_again:
  assumes "gen p = Some (In_readone 1, [])" "pos p = 0" "buf p = []"
  shows "parse_one h (feed p []) = (NotEnoughData, p)"
  using assms by (cases p) (simp add: parse_one_def feed_def waitsome_def)

lemma idle_waiting_chunks:
  assumes "gen p = Some (In_readone 1, [])" "pos p = 0" "buf p = []" "concat cs = []"
  shows "got (outcomes h p (chunked cs)) = []"
  using assms(4)
proof (induction cs)
  case Nil
  show ?case by (simp add: got_def)
next
  case (Cons c cs)
  then have c: "c = []" and cs: "concat cs = []" by simp_all
  show ?case
    using Cons.IH[OF cs] by (simp add: c idle_again[OF assms(1-3)] got_def)
qed

lemma idle_chunks:
  assumes "gen p = None" "err p = None" "pos p = 0" "buf p = []" "concat cs = []"
  shows "got (outcomes h p (chunked cs)) = []"
proof (cases cs)
  case Nil
  then show ?thesis by (simp add: got_def)
next
  case (Cons c cs')
  with assms(5) have c: "c = []" and cs: "concat cs' = []" by simp_all
  have "got (outcomes h (p\<lparr>gen := Some (In_readone 1, [])\<rparr>) (chunked cs')) = []"
    using assms(3,4) cs by (intro idle_waiting_chunks) simp_all
  then show ?thesis
    by (simp add: Cons c idle_start[OF assms(1-4)] got_def)
qed

subsection \<open>A bulk payload in chunks\<close>

lemma bulk_wait:
  assumes "gen p = Some (In_readline_size Sized_bulk (int n), [])" "pos p = 0"
    "length (buf p @ c) < n + 2"
  shows "parse_one h (feed p c) = (NotEnoughData, p\<lparr>buf := buf p @ c\<rparr>)"
  using assms by (cases p) (simp add: parse_one_def feed_def waitsome_def)

lemma readline_size_rest_payload:
  assumes "pos p = 0" "buf p = bs @ CRLF @ rest"
  shows "readline_size_rest p (int (length bs)) = Done bs (p\<lparr>pos := 0, buf := rest\<rparr>)"
proof -
  have c: "\<not> int (length (buf p)) < int (length bs) + 2 + int (pos p)"
    using assms by (simp add: CRLF_def)
  have "readline_size p (int (length bs)) = readline_size_rest p (int (length bs))"
    using c by (simp only: readline_size_def if_False)
  then show ?thesis
    using readline_size_payload[OF assms] by simp
qed

lemma bulk_complete:
  assumes "gen p = Some (In_readline_size Sized_bulk (int (length bs)), [])" "pos p = 0"
    "buf p @ c = bs @ CRLF @ rest"
  shows "parse_one h (feed p c) = (Value (PBytes bs), p\<lparr>buf := rest, gen := None\<rparr>)"
proof -
  let ?q = "feed p c"
  have q: "pos ?q = 0" "buf ?q = bs @ CRLF @ rest"
    using assms by (simp_all add: feed_def)
  have w: "\<not> waitsome ?q (int (length bs) + 2)"
    using q by (simp add: waitsome_def CRLF_def)
  have "parse_one h ?q
      = run h [] (size_step h Sized_bulk (int (length bs)) ?q
          (readline_size_rest ?q (int (length bs))))"
    using assms(1) w by (simp add: parse_one_def feed_def)
  also have "\<dots> = run h [] (Returned (PBytes bs) (?q\<lparr>pos := 0, buf := rest\<rparr>))"
    by (simp only: readline_size_rest_payload[OF q] size_step_def reading.case after_size.simps)
  also have "\<dots> = (Value (PBytes bs), p\<lparr>buf := rest, gen := None\<rparr>)"
    using assms(2) by (cases p) (simp add: feed_def)
  finally show ?thesis .
qed

lemma append_same_length:
  "length a = length b \<Longrightarrow> a @ x = b @ y \<Longrightarrow> a = b \<and> x = y"
  by simp

lemma bulk_chunks:
  assumes "gen p = Some (In_readline_size Sized_bulk (int (length bs)), [])" "pos p = 0"
    "err p = None"
    "length (buf p) < length bs + 2" "buf p @ concat cs = bs @ CRLF"
  shows "got (outcomes h p (chunked cs)) = [Value (PBytes bs)]"
  using assms
proof (induction cs arbitrary: p)
  case Nil
  then show ?case by (simp add: CRLF_def)
next
  case (Cons c cs)
  show ?case
  proof (cases "length (buf p @ c) < length bs + 2")
    case True
    let ?p = "p\<lparr>buf := buf p @ c\<rparr>"
    have step: "parse_one h (feed p c) = (NotEnoughData, ?p)"
      by (rule bulk_wait[OF Cons.prems(1,2) True])
    have "got (outcomes h ?p (chunked cs)) = [Value (PBytes bs)]"
      using Cons.prems True by (intro Cons.IH) simp_all
    then show ?thesis by (simp add: step got_def)
  next
    case False
    have "length (buf p @ c) \<le> length (bs @ CRLF)"
      using arg_cong[OF Cons.prems(5), of length] by simp
    with False have "length (buf p @ c) = length (bs @ CRLF)"
      by (simp add: CRLF_def)
    moreover have "(buf p @ c) @ concat cs = (bs @ CRLF) @ []"
      using Cons.prems(5) by simp
    ultimately have "buf p @ c = bs @ CRLF \<and> concat cs = []"
      by (rule append_same_length)
    then have full: "buf p @ c = bs @ CRLF" and cs: "concat cs = []"
      by simp_all
    let ?p = "p\<lparr>buf := [], gen := None\<rparr>"
    have step: "parse_one h (feed p c) = (Value (PBytes bs), ?p)"
      using bulk_complete[OF Cons.prems(1,2), where c = c and rest = "[]" and h = h] full by simp
    have "got (outcomes h ?p (chunked cs)) = []"
      using Cons.prems(2,3) cs by (intro idle_chunks) simp_all
    then show ?thesis by (simp add: step got_def)
  qed
qed


subsection \<open>Bulk frames\<close>

lemma bulk_header:
  assumes clean: "gen p = None" "err p = None" "pos p = 0"
    and tab: "map_of (protocols p) ''$'' = Some fp"
      "fp = Parse_bulk \<and> sp = Sized_bulk \<or> fp = Parse_bulk_decode \<and> sp = Sized_bulk_decode"
    and tok: "crlf_index tok = None" "py_int tok = Some n" "n \<noteq> - 1"
  shows "parse_one h (p\<lparr>buf := ''$'' @ tok @ CRLF @ body\<rparr>)
           = run h [] (size_step h sp n (p\<lparr>buf := body\<rparr>) (readline_size (p\<lparr>buf := body\<rparr>) n))"
proof -
  have "parse_one h (p\<lparr>buf := CHR ''$'' # tok @ CRLF @ body\<rparr>)
          = run h [] (after_line h fp (p\<lparr>buf := body\<rparr>) tok)"
    using tab(1) by (intro parse_one_frame[OF clean tok(1)]) simp
  also have "\<dots> = run h [] (size_step h sp n (p\<lparr>buf := body\<rparr>)
      (readline_size (p\<lparr>buf := body\<rparr>) n))"
    using tab(2) tok(2,3) by (auto simp: parse_sized_def readint_def)
  finally show ?thesis by simp
qed

lemma bulk_frame:
  assumes clean: "gen p = None" "err p = None" "pos p = 0"
    and tab: "protocols p = PROTOCOLS"
    and tok: "crlf_index tok = None" "py_int tok = Some (int (length bs))"
  shows "parse_one h (p\<lparr>buf := ''$'' @ tok @ CRLF @ bs @ CRLF @ rest\<rparr>)
           = (Value (PBytes bs), p\<lparr>buf := rest\<rparr>)"
proof -
  let ?q = "p\<lparr>buf := bs @ CRLF @ rest\<rparr>"
  have m: "map_of (protocols p) ''$'' = Some Parse_bulk"
    by (simp add: tab PROTOCOLS_def)
  have rl: "readline_size ?q (int (length bs)) = Done bs (?q\<lparr>pos := 0, buf := rest\<rparr>)"
    using clean(3) by (intro readline_size_payload) simp_all
  have q: "?q\<lparr>pos := 0, buf := rest\<rparr> = p\<lparr>buf := rest\<rparr>"
    using clean(3) by (cases p) simp
  have "parse_one h (p\<lparr>buf := ''$'' @ tok @ CRLF @ bs @ CRLF @ rest\<rparr>)
      = run h [] (size_step h Sized_bulk (int (length bs)) ?q (readline_size ?q (int (length bs))))"
    using m tok by (intro bulk_header[OF clean]) simp_all
  also have "\<dots> = run h [] (Returned (PBytes bs) (p\<lparr>buf := rest\<rparr>))"
    by (simp only: rl q size_step_def reading.case after_size.simps)
  also have "\<dots> = (Value (PBytes bs), p\<lparr>buf := rest\<rparr>)"
    using clean(1) by (intro run_top_Returned) simp
  finally show ?thesis .
qed

lemma bulk_frame_decode:
  assumes clean: "gen p = None" "err p = None" "pos p = 0"
    and tab: "protocols p = PROTOCOLS_DECODE"
    and tok: "crlf_index tok = None" "py_int tok = Some (int (length bs))"
    and dec: "encoding p = Some enc" "py_decode h enc (encoding_errors p) bs = Inr t"
  shows "parse_one h (p\<lparr>buf := ''$'' @ tok @ CRLF @ bs @ CRLF @ rest\<rparr>)
           = (Value (PStr t), p\<lparr>buf := rest\<rparr>)"
proof -
  let ?q = "p\<lparr>buf := bs @ CRLF @ rest\<rparr>"
  have m: "map_of (protocols p) ''$'' = Some Parse_bulk_decode"
    by (simp add: tab PROTOCOLS_DECODE_def)
  have rl: "readline_size ?q (int (length bs)) = Done bs (?q\<lparr>pos := 0, buf := rest\<rparr>)"
    using clean(3) by (intro readline_size_payload) simp_all
  have q: "?q\<lparr>pos := 0, buf := rest\<rparr> = p\<lparr>buf := rest\<rparr>"
    using clean(3) by (cases p) simp
  have "parse_one h (p\<lparr>buf := ''$'' @ tok @ CRLF @ bs @ CRLF @ rest\<rparr>)
      = run h [] (size_step h Sized_bulk_decode (int (length bs)) ?q
          (readline_size ?q (int (length bs))))"
    using m tok by (intro bulk_header[OF clean]) simp_all
  also have "\<dots> = run h [] (decoded h (p\<lparr>buf := rest\<rparr>) (Some bs))"
    by (simp only: rl q size_step_def reading.case after_size.simps)
  also have "\<dots> = run h [] (Returned (PStr t) (p\<lparr>buf := rest\<rparr>))"
    using dec by (simp add: decoded_def maybe_decode_def)
  also have "\<dots> = (Value (PStr t), p\<lparr>buf := rest\<rparr>)"
    using clean(1) by (intro run_top_Returned) simp
  finally show ?thesis .
qed

lemma bulk_null:
  assumes clean: "gen p = None" "err p = None" "pos p = 0"
    and tab: "protocols p = PROTOCOLS \<or> protocols p = PROTOCOLS_DECODE"
  shows "parse_one h (p\<lparr>buf := ''$-1'' @ CRLF @ rest\<rparr>) = (Value PNone, p\<lparr>buf := rest\<rparr>)"
proof -
  have t: "crlf_index ''-1'' = None" "py_int ''-1'' = Some (- 1)"
    by code_simp+
  from map_of_sized[OF tab] obtain fp where fp: "map_of (protocols p) ''$'' = Some fp"
    "fp = Parse_bulk \<or> fp = Parse_bulk_decode" by blast
  have "parse_one h (p\<lparr>buf := CHR ''$'' # ''-1'' @ CRLF @ rest\<rparr>)
          = run h [] (after_line h fp (p\<lparr>buf := rest\<rparr>) ''-1'')"
    using fp(1) by (intro parse_one_frame[OF clean t(1)]) simp
  also have "\<dots> = run h [] (Returned PNone (p\<lparr>buf := rest\<rparr>))"
    using fp(2) t(2) by (auto simp: parse_sized_def readint_def)
  also have "\<dots> = (Value PNone, p\<lparr>buf := rest\<rparr>)"
    using clean(1) by (intro run_top_Returned) simp
  finally show ?thesis by simp
qed

lemma bulk_first_chunk:
  assumes clean: "gen p = None" "err p = None" "pos p = 0"
    and tab: "protocols p = PROTOCOLS"
    and tok: "crlf_index tok = None" "py_int tok = Some (int (length bs))"
    and short: "length pre < length bs + 2"
  shows "parse_one h (p\<lparr>buf := ''$'' @ tok @ CRLF @ pre\<rparr>)
           = (NotEnoughData,
              p\<lparr>buf := pre, gen := Some (In_readline_size Sized_bulk (int (length bs)), [])\<rparr>)"
proof -
  let ?q = "p\<lparr>buf := pre\<rparr>"
  have m: "map_of (protocols p) ''$'' = Some Parse_bulk"
    by (simp add: tab PROTOCOLS_def)
  have rl: "readline_size ?q (int (length bs)) = Blocked (int (length bs) + 2)"
    using clean(3) short by (simp add: readline_size_def waitsome_def)
  have "parse_one h (p\<lparr>buf := ''$'' @ tok @ CRLF @ pre\<rparr>)
      = run h [] (size_step h Sized_bulk (int (length bs)) ?q (readline_size ?q (int (length bs))))"
    using m tok by (intro bulk_header[OF clean]) simp_all
  also have "\<dots> = run h [] (Yielded (In_readline_size Sized_bulk (int (length bs))) ?q)"
    by (simp only: rl size_step_def reading.case)
  finally show ?thesis by simp
qed

lemma bulk_any_chunks:
  assumes clean: "gen p = None" "err p = None" "pos p = 0" "buf p = []"
    and tab: "protocols p = PROTOCOLS"
    and tok: "crlf_index tok = None" "py_int tok = Some (int (length bs))"
    and split: "pre @ concat cs = bs @ CRLF"
  shows "got (outcomes h p (chunked ((''$'' @ tok @ CRLF @ pre) # cs))) = [Value (PBytes bs)]"
proof -
  have fd: "feed p (''$'' @ tok @ CRLF @ pre) = p\<lparr>buf := ''$'' @ tok @ CRLF @ pre\<rparr>"
    using clean(4) by (simp add: feed_def)
  show ?thesis
  proof (cases "length pre < length bs + 2")
    case True
    let ?w = "p\<lparr>buf := pre, gen := Some (In_readline_size Sized_bulk (int (length bs)), [])\<rparr>"
    have step: "parse_one h (feed p (''$'' @ tok @ CRLF @ pre)) = (NotEnoughData, ?w)"
      using bulk_first_chunk[OF clean(1-3) tab tok True, of h] by (simp add: feed_def clean(4))
    have "got (outcomes h ?w (chunked cs)) = [Value (PBytes bs)]"
      using clean True split by (intro bulk_chunks) simp_all
    then show ?thesis
      by (simp only: outcomes_chunk step fst_conv snd_conv) (simp add: got_def)
  next
    case False
    have "length pre \<le> length (bs @ CRLF)"
      using arg_cong[OF split, of length] by simp
    with False have "length pre = length (bs @ CRLF)"
      by (simp add: CRLF_def)
    moreover have "pre @ concat cs = (bs @ CRLF) @ []"
      using split by simp
    ultimately have "pre = bs @ CRLF \<and> concat cs = []"
      by (rule append_same_length)
    then have full: "pre = bs @ CRLF" and emp: "concat cs = []"
      by simp_all
    have step: "parse_one h (feed p (''$'' @ tok @ CRLF @ pre)) = (Value (PBytes bs), p\<lparr>buf := []\<rparr>)"
      using bulk_frame[OF clean(1-3) tab tok, of h "[]"] by (simp add: feed_def clean(4) full)
    have "got (outcomes h (p\<lparr>buf := []\<rparr>) (chunked cs)) = []"
      using clean emp by (intro idle_chunks) simp_all
    then show ?thesis
      by (simp only: outcomes_chunk step fst_conv snd_conv) (simp add: got_def)
  qed
qed

text \<open>
  C7. On a parser with no parse in progress, for a bulk reply \<^verbatim>\<open>$N\r\n\<close> (the token
  \<open>tok\<close> is one \<^verbatim>\<open>int\<close> reads as \<open>N\<close>) followed by exactly \<open>N\<close> payload bytes \<open>bs\<close> and CR LF:
  \<^item> under the raw table \<^verbatim>\<open>parse_one\<close> returns exactly \<open>bs\<close> and consumes the frame;
  \<^item> under the decoding table it returns the text \<open>bs\<close> decodes to with the parser's
    encoding and error policy;
  \<^item> \<^verbatim>\<open>$-1\r\n\<close> returns null;
  \<^item> when the header arrives whole in the first chunk and the payload with its CR LF is
    split over that chunk and any further chunks, at any byte boundaries, with one
    \<^verbatim>\<open>parse_one\<close> after each chunk, the calls deliver exactly one value, \<open>bs\<close>, and no
    error.
\<close>

theorem bulk_string_parsed:
  assumes clean: "gen p = None" "err p = None" "pos p = 0"
    and tok: "crlf_index tok = None" "py_int tok = Some (int (length bs))"
  shows
    "(protocols p = PROTOCOLS \<longrightarrow>
        parse_one h (p\<lparr>buf := ''$'' @ tok @ CRLF @ bs @ CRLF @ rest\<rparr>)
          = (Value (PBytes bs), p\<lparr>buf := rest\<rparr>))
   \<and> (protocols p = PROTOCOLS_DECODE \<and> encoding p = Some enc
        \<and> py_decode h enc (encoding_errors p) bs = Inr t \<longrightarrow>
        parse_one h (p\<lparr>buf := ''$'' @ tok @ CRLF @ bs @ CRLF @ rest\<rparr>)
          = (Value (PStr t), p\<lparr>buf := rest\<rparr>))
   \<and> (protocols p = PROTOCOLS \<or> protocols p = PROTOCOLS_DECODE \<longrightarrow>
        parse_one h (p\<lparr>buf := ''$-1'' @ CRLF @ rest\<rparr>) = (Value PNone, p\<lparr>buf := rest\<rparr>))
   \<and> (protocols p = PROTOCOLS \<and> buf p = [] \<and> pre @ concat cs = bs @ CRLF \<longrightarrow>
        got (outcomes h p (chunked ((''$'' @ tok @ CRLF @ pre) # cs))) = [Value (PBytes bs)])"
proof (intro conjI impI)
  assume "protocols p = PROTOCOLS"
  then show "parse_one h (p\<lparr>buf := ''$'' @ tok @ CRLF @ bs @ CRLF @ rest\<rparr>)
          = (Value (PBytes bs), p\<lparr>buf := rest\<rparr>)"
    by (rule bulk_frame[OF clean _ tok])
next
  assume "protocols p = PROTOCOLS_DECODE \<and> encoding p = Some enc
        \<and> py_decode h enc (encoding_errors p) bs = Inr t"
  then show "parse_one h (p\<lparr>buf := ''$'' @ tok @ CRLF @ bs @ CRLF @ rest\<rparr>)
          = (Value (PStr t), p\<lparr>buf := rest\<rparr>)"
    using bulk_frame_decode[OF clean _ tok, of enc h t rest] by (elim conjE)
next
  assume "protocols p = PROTOCOLS \<or> protocols p = PROTOCOLS_DECODE"
  then show "parse_one h (p\<lparr>buf := ''$-1'' @ CRLF @ rest\<rparr>) = (Value PNone, p\<lparr>buf := rest\<rparr>)"
    by (rule bulk_null[OF clean])
next
  assume "protocols p = PROTOCOLS \<and> buf p = [] \<and> pre @ concat cs = bs @ CRLF"
  then show "got (outcomes h p (chunked ((''$'' @ tok @ CRLF @ pre) # cs))) = [Value (PBytes bs)]"
    using bulk_any_chunks[OF clean _ _ tok, of pre cs h] by (elim conjE)
qed

theorem bulk_string_parsed_witness:
  "parse_one latin1_host (demo\<lparr>buf := ''$'' @ ''5'' @ CRLF @ ''hello'' @ CRLF @ ''+OK'' @ CRLF\<rparr>)
     = (Value (PBytes ''hello''), demo\<lparr>buf := ''+OK'' @ CRLF\<rparr>)
   \<and> parse_one latin1_host
       (demo_latin1\<lparr>buf := ''$'' @ ''5'' @ CRLF @ ''hello'' @ CRLF @ ''+OK'' @ CRLF\<rparr>)
     = (Value (PStr (map of_char ''hello'')), demo_latin1\<lparr>buf := ''+OK'' @ CRLF\<rparr>)
   \<and> parse_one latin1_host (demo\<lparr>buf := ''$-1'' @ CRLF @ ''+OK'' @ CRLF\<rparr>)
     = (Value PNone, demo\<lparr>buf := ''+OK'' @ CRLF\<rparr>)
   \<and> got (outcomes latin1_host demo
        (chunked [''$'' @ ''5'' @ CRLF @ ''hel'', ''lo'' @ CRLF])) = [Value (PBytes ''hello'')]
   \<and> outcomes latin1_host demo (chunked [''$'' @ ''5'' @ CRLF @ ''hel'', ''lo'' @ CRLF])
     = [NotEnoughData, Value (PBytes ''hello'')]"
proof -
  have a: "gen demo = None" "err demo = None" "pos demo = 0"
    and a': "gen demo_latin1 = None" "err demo_latin1 = None" "pos demo_latin1 = 0"
    and b: "crlf_index ''5'' = None" "py_int ''5'' = Some (int (length ''hello''))"
    by (simp_all add: demo_def demo_latin1_def init_def) code_simp+
  have c: "protocols demo = PROTOCOLS" "buf demo = []"
    "protocols demo_latin1 = PROTOCOLS_DECODE" "encoding demo_latin1 = Some ''latin-1''"
    "py_decode latin1_host ''latin-1'' (encoding_errors demo_latin1) ''hello''
       = Inr (map of_char ''hello'')"
    "''hel'' @ concat [''lo'' @ CRLF] = ''hello'' @ CRLF"
    by (simp_all add: demo_def demo_latin1_def init_def truthy_def latin1_host_def)
  have d: "outcomes latin1_host demo (chunked [''$'' @ ''5'' @ CRLF @ ''hel'', ''lo'' @ CRLF])
     = [NotEnoughData, Value (PBytes ''hello'')]"
    by code_simp
  show ?thesis
    using bulk_string_parsed[OF a b, of latin1_host "''+OK'' @ CRLF" _ _ "''hel''" "[''lo'' @ CRLF]"]
      bulk_string_parsed[OF a' b, of latin1_host "''+OK'' @ CRLF" "''latin-1''"
        "map of_char ''hello''" "''hel''" "[''lo'' @ CRLF]"] c d
    by simp
qed

section \<open>The sticky error\<close>

lemma threw_ok_readline_size_rest: "threw_ok (readline_size_rest p n)"
  by (simp add: readline_size_rest_def readline_rest_def error_def Let_def)

lemma threw_ok_readline_size: "threw_ok (readline_size p n)"
  by (simp add: readline_size_def threw_ok_readline_size_rest)

lemma threw_ok_readline: "threw_ok (readline p)"
  by (simp add: readline_eq readline_rest_def)

lemma raises_ok_decoded: "raises_ok (decoded h p v)"
  by (simp add: decoded_def split: sum.splits)

lemma raises_ok_after_size: "raises_ok (after_size h sp p val)"
  by (cases sp) (simp_all add: raises_ok_decoded split: option.splits)

lemma raises_ok_size_step: "threw_ok rd \<Longrightarrow> raises_ok (size_step h sp n p rd)"
proof (cases rd)
  case (Threw x p')
  assume "threw_ok rd"
  with Threw show ?thesis by (cases x) (simp_all add: size_step_def)
qed (simp_all add: size_step_def raises_ok_after_size)

lemma readint_cases:
  "(\<exists>n. readint p line = Inr n) \<or>
   (\<exists>e. readint p line = Inl (Protocol e, p\<lparr>err := Some e\<rparr>))"
  by (simp add: readint_def error_def split: option.splits)

lemma raises_ok_parse_sized: "raises_ok (parse_sized h sp p line)"
  using readint_cases[of p line]
  by (auto simp: parse_sized_def raises_ok_size_step threw_ok_readline_size)

lemma raises_ok_after_line: "raises_ok (after_line h fp p line)"
proof (cases fp)
  case Parse_error
  then show ?thesis by (simp add: parse_error_def split: sum.splits)
next
  case Parse_int
  then show ?thesis using readint_cases[of p line] by (auto simp: parse_int_def)
next
  case Parse_float
  then show ?thesis
    by (simp add: parse_float_def readfloat_def error_def split: option.splits)
next
  case Parse_mutibulk
  then show ?thesis using readint_cases[of p line] by (auto simp: parse_mutibulk_def)
next
  case Parse_vector
  then show ?thesis using readint_cases[of p line] by (auto simp: parse_mutibulk_def)
next
  case Parse_dict
  then show ?thesis using readint_cases[of p line] by (auto simp: parse_dict_def)
next
  case Parse_set
  then show ?thesis using readint_cases[of p line] by (auto simp: parse_set_def)
qed (simp_all add: raises_ok_parse_sized raises_ok_decoded)

lemma raises_ok_line_step: "threw_ok rd \<Longrightarrow> raises_ok (line_step h fp p rd)"
proof (cases rd)
  case (Threw x p')
  assume "threw_ok rd"
  with Threw show ?thesis by (cases x) (simp_all add: line_step_def)
qed (simp_all add: line_step_def raises_ok_after_line)

lemma raises_ok_dispatch: "raises_ok (dispatch h p ctl)"
  by (simp add: dispatch_def error_def raises_ok_line_step threw_ok_readline split: option.splits)

lemma raises_ok_one_step: "threw_ok rd \<Longrightarrow> raises_ok (one_step h p rd)"
proof (cases rd)
  case (Threw x p')
  assume "threw_ok rd"
  with Threw show ?thesis by (cases x) (simp_all add: one_step_def)
qed (simp_all add: one_step_def raises_ok_dispatch)

lemma raises_ok_parse: "raises_ok (parse h p)"
  by (simp add: parse_def raises_ok_one_step readone_eq readone_rest_def split: option.splits)

lemma raises_ok_resume: "raises_ok (resume h p r)"
  by (cases r)
    (simp_all add: raises_ok_one_step readone_rest_def raises_ok_line_step threw_ok_readline
      raises_ok_size_step threw_ok_readline_size_rest)

lemma raises_ok_child_returned: "raises_ok (child_returned fr v p)"
  by (cases fr) simp_all

lemma run_raised:
  "raises_ok s \<Longrightarrow> run h st s = (Raised (Protocol e), p1) \<Longrightarrow> err p1 = Some e \<and> gen p1 = None"
proof (induction h st s rule: run.induct)
  case (1 h st r p)
  then show ?case by simp
next
  case (2 h st x p)
  then show ?case by auto
next
  case (3 h st fr p)
  then show ?case by (simp add: raises_ok_parse)
next
  case (4 h v p)
  then show ?case by simp
next
  case (5 h fr st v p)
  then show ?case by (simp add: raises_ok_child_returned)
qed

lemma parse_one_raised:
  assumes "parse_one h p = (Raised (Protocol e), p1)"
  shows "err p1 = Some e \<and> gen p1 = None"
proof (cases "gen p")
  case None
  with assms have "run h [] (parse h p) = (Raised (Protocol e), p1)"
    by (simp add: parse_one_def)
  then show ?thesis by (rule run_raised[OF raises_ok_parse])
next
  case (Some g)
  obtain r st where g: "g = (r, st)" by (cases g)
  with Some assms have "run h st (resume h p r) = (Raised (Protocol e), p1)"
    by (simp add: parse_one_def)
  then show ?thesis by (rule run_raised[OF raises_ok_resume])
qed

lemma latched_parse_one:
  assumes "err p = Some e" "gen p = None"
  shows "parse_one h p = (Raised (Protocol e), p)"
  using assms by (cases p) (simp add: parse_one_def parse_def)

lemma latched_ops:
  assumes "err p = Some e" "gen p = None"
  shows "outcomes h p ops = replicate (calls ops) (Raised (Protocol e))
       \<and> err (foldl (apply_op h) p ops) = Some e
       \<and> pos (foldl (apply_op h) p ops) = pos p
       \<and> buf (foldl (apply_op h) p ops) = buf p @ fed ops"
  using assms
proof (induction ops arbitrary: p)
  case Nil
  show ?case using Nil by (simp add: calls_def)
next
  case (Cons x ops)
  show ?case
  proof (cases x)
    case (Feed data)
    have "err (feed p data) = Some e" "gen (feed p data) = None"
      using Cons.prems by (simp_all add: feed_def)
    from Cons.IH[OF this] show ?thesis
      by (simp add: Feed calls_def feed_def)
  next
    case (Set_encoding val)
    have "err (set_encoding p val) = Some e" "gen (set_encoding p val) = None"
      using Cons.prems by (simp_all add: set_encoding_def)
    from Cons.IH[OF this] show ?thesis
      by (simp add: Set_encoding calls_def set_encoding_def)
  next
    case Parse_one
    from Cons.IH[OF Cons.prems] show ?thesis
      by (simp add: Parse_one calls_def latched_parse_one[OF Cons.prems])
  qed
qed

text \<open>
  C3. Once a \<^verbatim>\<open>parse_one\<close> call has raised a protocol error \<open>e\<close>, \<^verbatim>\<open>_err\<close> holds \<open>e\<close>, and
  for every sequence of later operations of the owner (buffer appends, the encoding
  setter, \<^verbatim>\<open>parse_one\<close>): every \<^verbatim>\<open>parse_one\<close> call raises \<open>e\<close> again, \<^verbatim>\<open>_err\<close> still holds
  \<open>e\<close> at the end, \<open>pos\<close> is unchanged and the buffer is the old one with the appended bytes:
  no call consumed anything.
\<close>

theorem sticky_error_latch:
  assumes "parse_one h p = (Raised (Protocol e), p1)"
  shows "err p1 = Some e
       \<and> outcomes h p1 ops = replicate (calls ops) (Raised (Protocol e))
       \<and> err (foldl (apply_op h) p1 ops) = Some e
       \<and> pos (foldl (apply_op h) p1 ops) = pos p1
       \<and> buf (foldl (apply_op h) p1 ops) = buf p1 @ fed ops"
  using parse_one_raised[OF assms] latched_ops[of p1 e h ops] by simp

theorem sticky_error_latch_witness:
  "parse_one latin1_host (demo\<lparr>buf := CHR ''!'' # ''bad'' @ CRLF\<rparr>)
     = (Raised (Protocol (Msg_protocol_error ''!'')),
        demo\<lparr>buf := CHR ''!'' # ''bad'' @ CRLF, pos := 1, err := Some (Msg_protocol_error ''!'')\<rparr>)
   \<and> outcomes latin1_host
        (demo\<lparr>buf := CHR ''!'' # ''bad'' @ CRLF, pos := 1, err := Some (Msg_protocol_error ''!'')\<rparr>)
        [Parse_one, Feed ('':1'' @ CRLF), Set_encoding (Some ''latin-1''), Parse_one]
     = [Raised (Protocol (Msg_protocol_error ''!'')), Raised (Protocol (Msg_protocol_error ''!''))]
   \<and> err (foldl (apply_op latin1_host)
        (demo\<lparr>buf := CHR ''!'' # ''bad'' @ CRLF, pos := 1, err := Some (Msg_protocol_error ''!'')\<rparr>)
        [Parse_one, Feed ('':1'' @ CRLF), Set_encoding (Some ''latin-1''), Parse_one])
     = Some (Msg_protocol_error ''!'')
   \<and> pos (foldl (apply_op latin1_host)
        (demo\<lparr>buf := CHR ''!'' # ''bad'' @ CRLF, pos := 1, err := Some (Msg_protocol_error ''!'')\<rparr>)
        [Parse_one, Feed ('':1'' @ CRLF), Set_encoding (Some ''latin-1''), Parse_one]) = 1
   \<and> buf (foldl (apply_op latin1_host)
        (demo\<lparr>buf := CHR ''!'' # ''bad'' @ CRLF, pos := 1, err := Some (Msg_protocol_error ''!'')\<rparr>)
        [Parse_one, Feed ('':1'' @ CRLF), Set_encoding (Some ''latin-1''), Parse_one])
     = CHR ''!'' # ''bad'' @ CRLF @ '':1'' @ CRLF"
proof -
  have a: "gen demo = None" "err demo = None" "pos demo = 0"
    "map_of (protocols demo) [CHR ''!''] = None"
    by (simp_all add: demo_def init_def truthy_def PROTOCOLS_def)
  have b: "protocolError demo = id"
    by (simp add: demo_def init_def)
  have c: "parse_one latin1_host (demo\<lparr>buf := CHR ''!'' # ''bad'' @ CRLF\<rparr>)
     = (Raised (Protocol (Msg_protocol_error ''!'')),
        demo\<lparr>buf := CHR ''!'' # ''bad'' @ CRLF, pos := 1, err := Some (Msg_protocol_error ''!'')\<rparr>)"
    using violation_tag[OF a, of latin1_host "''bad'' @ CRLF"] by (simp add: b)
  show ?thesis
    using sticky_error_latch[OF c,
        of "[Parse_one, Feed ('':1'' @ CRLF), Set_encoding (Some ''latin-1''), Parse_one]"] c
    by (simp add: calls_def)
qed

section \<open>The cursor\<close>

lemma reading_ok_readline: "reading_ok (readline p)"
  by (simp add: readline_eq readline_rest_def)

lemma reading_ok_readline_size_rest:
  "pos p \<le> length (buf p) \<Longrightarrow> reading_ok (readline_size_rest p n)"
  by (simp add: readline_size_rest_def readline_rest_def error_def Let_def)

lemma reading_ok_readline_size:
  "pos p \<le> length (buf p) \<Longrightarrow> reading_ok (readline_size p n)"
  by (simp add: readline_size_def reading_ok_readline_size_rest)

lemma step_ok_decoded: "pos p \<le> length (buf p) \<Longrightarrow> step_ok (decoded h p v)"
  by (simp add: decoded_def split: sum.splits)

lemma step_ok_after_size: "pos p \<le> length (buf p) \<Longrightarrow> step_ok (after_size h sp p val)"
  by (cases sp) (simp_all add: step_ok_decoded split: option.splits)

lemma step_ok_size_step:
  "pos p \<le> length (buf p) \<Longrightarrow> reading_ok rd \<Longrightarrow> step_ok (size_step h sp n p rd)"
  by (cases rd) (simp_all add: size_step_def step_ok_after_size)

lemma step_ok_parse_sized:
  "pos p \<le> length (buf p) \<Longrightarrow> step_ok (parse_sized h sp p line)"
  using readint_cases[of p line]
  by (auto simp: parse_sized_def step_ok_size_step reading_ok_readline_size)

lemma step_ok_after_line:
  assumes "pos p \<le> length (buf p)"
  shows "step_ok (after_line h fp p line)"
proof (cases fp)
  case Parse_error
  then show ?thesis using assms by (simp add: parse_error_def split: sum.splits)
next
  case Parse_int
  then show ?thesis using assms readint_cases[of p line] by (auto simp: parse_int_def)
next
  case Parse_float
  then show ?thesis using assms
    by (simp add: parse_float_def readfloat_def error_def split: option.splits)
next
  case Parse_mutibulk
  then show ?thesis using assms readint_cases[of p line] by (auto simp: parse_mutibulk_def)
next
  case Parse_vector
  then show ?thesis using assms readint_cases[of p line] by (auto simp: parse_mutibulk_def)
next
  case Parse_dict
  then show ?thesis using assms readint_cases[of p line] by (auto simp: parse_dict_def)
next
  case Parse_set
  then show ?thesis using assms readint_cases[of p line] by (auto simp: parse_set_def)
qed (simp_all add: assms step_ok_parse_sized step_ok_decoded)

lemma step_ok_line_step:
  "pos p \<le> length (buf p) \<Longrightarrow> reading_ok rd \<Longrightarrow> step_ok (line_step h fp p rd)"
  by (cases rd) (simp_all add: line_step_def step_ok_after_line)

lemma step_ok_dispatch: "pos p \<le> length (buf p) \<Longrightarrow> step_ok (dispatch h p ctl)"
  by (simp add: dispatch_def error_def step_ok_line_step reading_ok_readline split: option.splits)

lemma step_ok_parse: "pos p \<le> length (buf p) \<Longrightarrow> step_ok (parse h p)"
  by (simp add: parse_def one_step_def readone_eq readone_rest_def waitany_def step_ok_dispatch
      split: option.splits)

lemma step_ok_resume:
  assumes "pos p \<le> length (buf p)" "reader_ok r"
  shows "step_ok (resume h p r)"
proof (cases r)
  case (In_readone n)
  show ?thesis
  proof (cases "waitsome p n")
    case True
    then show ?thesis using assms In_readone by simp
  next
    case False
    with assms In_readone have "pos (p\<lparr>pos := pos p + 1\<rparr>) \<le> length (buf (p\<lparr>pos := pos p + 1\<rparr>))"
      by (simp add: waitsome_def)
    then have "step_ok (dispatch h (p\<lparr>pos := pos p + 1\<rparr>)
        (pyslice (buf p) (int (pos p)) (int (pos p) + 1)))"
      by (rule step_ok_dispatch)
    then show ?thesis using False In_readone
      by (simp add: one_step_def readone_rest_def)
  qed
next
  case (In_readline fp n)
  then show ?thesis using assms
    by (simp add: step_ok_line_step reading_ok_readline)
next
  case (In_readline_size sp n)
  then show ?thesis using assms
    by (simp add: step_ok_size_step reading_ok_readline_size_rest)
qed

lemma step_ok_child_returned:
  "pos p \<le> length (buf p) \<Longrightarrow> step_ok (child_returned fr v p)"
  by (cases fr) simp_all

lemma step_ok_pos: "step_ok s \<Longrightarrow> (case s of Returned v p \<Rightarrow> pos p \<le> length (buf p)
   | Yielded r p \<Rightarrow> pos p \<le> length (buf p) | Raises x p \<Rightarrow> pos p \<le> length (buf p)
   | Descend fr p \<Rightarrow> pos p \<le> length (buf p))"
  by (cases s) simp_all

lemma run_cursor_ok: "step_ok s \<Longrightarrow> cursor_ok (snd (run h st s))"
proof (induction h st s rule: run.induct)
  case (1 h st r p)
  then show ?case by (simp add: cursor_ok_def)
next
  case (2 h st x p)
  then show ?case by (simp add: cursor_ok_def)
next
  case (3 h st fr p)
  then show ?case by (simp add: step_ok_parse)
next
  case (4 h v p)
  then show ?case by (simp add: cursor_ok_def)
next
  case (5 h fr st v p)
  then show ?case by (simp add: step_ok_child_returned)
qed

lemma parse_one_cursor_ok:
  assumes "cursor_ok p"
  shows "cursor_ok (snd (parse_one h p))"
proof (cases "gen p")
  case None
  have "step_ok (parse h p)"
    using assms by (intro step_ok_parse) (simp add: cursor_ok_def)
  then have "cursor_ok (snd (run h [] (parse h p)))"
    by (rule run_cursor_ok)
  then show ?thesis using None
    by (simp add: parse_one_def)
next
  case (Some g)
  obtain r st where g: "g = (r, st)" by (cases g)
  have "step_ok (resume h p r)"
    using assms Some g by (intro step_ok_resume) (simp_all add: cursor_ok_def)
  then show ?thesis using Some g
    by (simp add: parse_one_def run_cursor_ok)
qed

lemma apply_op_cursor_ok: "cursor_ok p \<Longrightarrow> cursor_ok (apply_op h p x)"
  by (cases x) (simp_all add: parse_one_cursor_ok, simp_all add: cursor_ok_def feed_def set_encoding_def)

lemma ops_cursor_ok: "cursor_ok p \<Longrightarrow> cursor_ok (foldl (apply_op h) p ops)"
  by (induction ops arbitrary: p) (simp_all add: apply_op_cursor_ok)

lemma init_cursor_ok: "cursor_ok (init pe re enc errs)"
  by (simp add: cursor_ok_def init_def)

lemma readline_truncates:
  assumes "readline p = Done line p'"
  shows "pos p' = 0 \<and> (\<exists>k. buf p' = drop k (buf p))"
  using assms by (auto simp: readline_eq readline_rest_def pydel_def split: if_splits)

lemma readline_size_rest_truncates:
  assumes "readline_size_rest p n = Done val p'"
  shows "pos p' = 0 \<and> (\<exists>k. buf p' = drop k (buf p))"
  using assms
  by (auto simp: readline_size_rest_def readline_rest_def pydel_def error_def Let_def
      split: if_splits)

lemma readline_size_truncates:
  assumes "readline_size p n = Done val p'"
  shows "pos p' = 0 \<and> (\<exists>k. buf p' = drop k (buf p))"
  using assms readline_size_rest_truncates[of p n val p']
  by (simp add: readline_size_def split: if_splits)

text \<open>
  C8. After every sequence of buffer appends, encoding changes and \<^verbatim>\<open>parse_one\<close> calls on
  a new parser, \<open>pos \<le> len(buf)\<close> (\<open>0 \<le> pos\<close> holds of a natural number). The buffer is
  truncated only where \<^verbatim>\<open>readline\<close>, with or without a size, returns: there the new
  buffer is the old one without a prefix and \<open>pos\<close> is 0. \<^verbatim>\<open>readone\<close> leaves the buffer as
  it is and moves the cursor by one, within the buffer.
\<close>

theorem cursor_invariant:
  "pos (foldl (apply_op h) (init pe re enc errs) ops)
     \<le> length (buf (foldl (apply_op h) (init pe re enc errs) ops))
   \<and> (readline p = Done line p' \<longrightarrow> pos p' = 0 \<and> (\<exists>k. buf p' = drop k (buf p)))
   \<and> (readline_size p n = Done line p' \<longrightarrow> pos p' = 0 \<and> (\<exists>k. buf p' = drop k (buf p)))
   \<and> (readline_size_rest p n = Done line p' \<longrightarrow> pos p' = 0 \<and> (\<exists>k. buf p' = drop k (buf p)))
   \<and> (readone p = Done line p' \<longrightarrow> buf p' = buf p \<and> pos p' = pos p + 1 \<and> pos p' \<le> length (buf p'))
   \<and> (readone_rest p = Done line p' \<longrightarrow> buf p' = buf p \<and> pos p' = pos p + 1)"
proof -
  have "cursor_ok (foldl (apply_op h) (init pe re enc errs) ops)"
    by (rule ops_cursor_ok[OF init_cursor_ok])
  then have "pos (foldl (apply_op h) (init pe re enc errs) ops)
     \<le> length (buf (foldl (apply_op h) (init pe re enc errs) ops))"
    by (simp add: cursor_ok_def)
  moreover have "readone p = Done line p' \<longrightarrow>
      buf p' = buf p \<and> pos p' = pos p + 1 \<and> pos p' \<le> length (buf p')"
    by (auto simp: readone_eq readone_rest_def split: if_splits)
  moreover have "readone_rest p = Done line p' \<longrightarrow> buf p' = buf p \<and> pos p' = pos p + 1"
    by (auto simp: readone_rest_def)
  ultimately show ?thesis
    using readline_truncates[of p line p'] readline_size_truncates[of p n line p']
      readline_size_rest_truncates[of p n line p']
    by blast
qed

theorem cursor_invariant_witness:
  "pos (foldl (apply_op latin1_host) demo
          (chunked [''$5'' @ CRLF @ ''hel'', ''lo'' @ CRLF @ ''*2'' @ CRLF @ '':1'', ''!'']))
     \<le> length (buf (foldl (apply_op latin1_host) demo
          (chunked [''$5'' @ CRLF @ ''hel'', ''lo'' @ CRLF @ ''*2'' @ CRLF @ '':1'', ''!''])))
   \<and> readline (demo\<lparr>buf := ''hello'' @ CRLF @ ''x''\<rparr>) = Done ''hello'' (demo\<lparr>buf := ''x''\<rparr>)
   \<and> readline_size (demo\<lparr>buf := ''hello'' @ CRLF @ ''x''\<rparr>) 5 = Done ''hello'' (demo\<lparr>buf := ''x''\<rparr>)
   \<and> readline_size_rest (demo\<lparr>buf := ''hello'' @ CRLF @ ''x''\<rparr>) 5
       = Done ''hello'' (demo\<lparr>buf := ''x''\<rparr>)
   \<and> pos (demo\<lparr>buf := ''x''\<rparr>) = 0
   \<and> (\<exists>k. buf (demo\<lparr>buf := ''x''\<rparr>) = drop k (buf (demo\<lparr>buf := ''hello'' @ CRLF @ ''x''\<rparr>)))
   \<and> readone (demo\<lparr>buf := ''hello'' @ CRLF @ ''x''\<rparr>)
       = Done ''h'' (demo\<lparr>buf := ''hello'' @ CRLF @ ''x'', pos := 1\<rparr>)
   \<and> pos (demo\<lparr>buf := ''hello'' @ CRLF @ ''x'', pos := 1\<rparr>)
       \<le> length (buf (demo\<lparr>buf := ''hello'' @ CRLF @ ''x'', pos := 1\<rparr>))"
proof -
  let ?p = "demo\<lparr>buf := ''hello'' @ CRLF @ ''x''\<rparr>"
  have z: "pos ?p = 0" "buf ?p = ''hello'' @ CRLF @ ''x''" "int (length ''hello'') = 5"
    "?p\<lparr>pos := 0, buf := ''x''\<rparr> = demo\<lparr>buf := ''x''\<rparr>"
    by (simp_all add: demo_def init_def)
  have a: "readline ?p = Done ''hello'' (demo\<lparr>buf := ''x''\<rparr>)"
    using readline_line[of ?p "[]" "''hello''" "''x''"] z by (simp add: crlf_index_no_CR CR_def)
  have b: "readline_size ?p 5 = Done ''hello'' (demo\<lparr>buf := ''x''\<rparr>)"
    using readline_size_payload[OF z(1,2)] z(3,4) by simp
  have c: "readline_size_rest ?p 5 = Done ''hello'' (demo\<lparr>buf := ''x''\<rparr>)"
    using readline_size_rest_payload[OF z(1,2)] z(3,4) by simp
  have d: "readone ?p = Done ''h'' (?p\<lparr>pos := 1\<rparr>)"
    by (simp add: readone_eq readone_rest_def pyslice_def clamp_def demo_def init_def)
  show ?thesis
    using cursor_invariant[of latin1_host id id None None
        "chunked [''$5'' @ CRLF @ ''hel'', ''lo'' @ CRLF @ ''*2'' @ CRLF @ '':1'', ''!'']"
        ?p "''hello''" "demo\<lparr>buf := ''x''\<rparr>" 5]
      cursor_invariant[of latin1_host id id None None "[]" ?p "''h''" "?p\<lparr>pos := 1\<rparr>" 5]
      a b c d
    unfolding demo_def[symmetric]
    by blast
qed

section \<open>The encoding setter and frames in progress\<close>

lemma waitsome_set_encoding [simp]: "waitsome (set_encoding p v) n = waitsome p n"
  by (simp add: waitsome_def set_encoding_def)

lemma readline_set_encoding:
  "readline (set_encoding p v) = map_reading (\<lambda>q. set_encoding q v) (readline p)"
  by (simp add: readline_eq readline_rest_def set_encoding_def waitany_def)

lemma readline_size_rest_set_encoding:
  "readline_size_rest (set_encoding p v) n
     = map_reading (\<lambda>q. set_encoding q v) (readline_size_rest p n)"
  by (simp add: readline_size_rest_def readline_rest_def error_def set_encoding_def Let_def)

lemma readline_size_set_encoding:
  "readline_size (set_encoding p v) n = map_reading (\<lambda>q. set_encoding q v) (readline_size p n)"
  using readline_size_rest_set_encoding[of p v n]
  by (simp add: readline_size_def) (simp add: set_encoding_def)

lemma after_size_set_encoding:
  "sp = Sized_bulk \<or> sp = Sized_verbatim \<Longrightarrow>
   after_size h sp (set_encoding p v) val = map_step (\<lambda>q. set_encoding q v) (after_size h sp p val)"
  by (auto split: option.splits)

lemma size_step_set_encoding:
  assumes "sp = Sized_bulk \<or> sp = Sized_verbatim"
  shows "size_step h sp n (set_encoding p v) (map_reading (\<lambda>q. set_encoding q v) rd)
     = map_step (\<lambda>q. set_encoding q v) (size_step h sp n p rd)"
  by (cases rd) (simp_all add: size_step_def after_size_set_encoding[OF assms])

lemma readint_set_encoding:
  "readint (set_encoding p v) line
     = map_sum (\<lambda>(x, q). (x, set_encoding q v)) id (readint p line)"
  by (simp add: readint_def error_def set_encoding_def split: option.splits)

lemma parse_sized_set_encoding:
  assumes "sp = Sized_bulk \<or> sp = Sized_verbatim"
  shows "parse_sized h sp (set_encoding p v) line
     = map_step (\<lambda>q. set_encoding q v) (parse_sized h sp p line)"
  by (cases "readint p line")
    (auto simp: parse_sized_def readint_set_encoding readline_size_set_encoding
      size_step_set_encoding[OF assms])

lemma after_line_set_encoding:
  assumes "fp \<in> {Parse_single, Parse_int, Parse_float, Parse_bool, Parse_null, Parse_bulk,
             Parse_verbatim}"
  shows "after_line h fp (set_encoding p v) line
     = map_step (\<lambda>q. set_encoding q v) (after_line h fp p line)"
proof -
  have i: "parse_int (set_encoding p v) line
      = map_step (\<lambda>q. set_encoding q v) (parse_int p line)"
    by (cases "readint p line") (auto simp: parse_int_def readint_set_encoding)
  have f: "parse_float h (set_encoding p v) line
      = map_step (\<lambda>q. set_encoding q v) (parse_float h p line)"
    by (simp add: parse_float_def readfloat_def error_def set_encoding_def split: option.splits)
  show ?thesis
    using assms i f by (auto simp: parse_sized_set_encoding)
qed

lemma line_step_set_encoding:
  assumes "fp \<in> {Parse_single, Parse_int, Parse_float, Parse_bool, Parse_null, Parse_bulk,
             Parse_verbatim}"
  shows "line_step h fp (set_encoding p v) (map_reading (\<lambda>q. set_encoding q v) rd)
     = map_step (\<lambda>q. set_encoding q v) (line_step h fp p rd)"
  by (cases rd) (simp_all add: line_step_def after_line_set_encoding[OF assms])

lemma not_descend_size_step: "\<not> is_descend (size_step h sp n p rd)"
  by (cases rd; cases sp) (simp_all add: size_step_def decoded_def split: option.splits sum.splits)

lemma not_descend_line_step:
  assumes "fp \<in> {Parse_single, Parse_int, Parse_float, Parse_bool, Parse_null, Parse_bulk,
             Parse_verbatim}"
  shows "\<not> is_descend (line_step h fp p rd)"
proof (cases rd)
  case (Done line q)
  have "\<not> is_descend (parse_sized h sp q line)" for sp
    using not_descend_size_step[of h sp _ q]
    by (simp add: parse_sized_def readint_def error_def split: option.splits)
  then show ?thesis using assms Done
    by (auto simp: line_step_def parse_int_def parse_float_def readint_def readfloat_def error_def
        split: option.splits)
qed (simp_all add: line_step_def)

lemma run_top_map_step:
  "\<not> is_descend s \<Longrightarrow>
   run h [] (map_step (\<lambda>q. set_encoding q v) s)
     = (fst (run h [] s), set_encoding (snd (run h [] s)) v)"
  by (cases s) (simp_all add: set_encoding_def)

lemma set_encoding_scalar_in_progress:
  assumes "gen p = Some (r, [])"
    and "(\<exists>fp n. r = In_readline fp n \<and> fp \<in> {Parse_single, Parse_int, Parse_float, Parse_bool,
             Parse_null, Parse_bulk, Parse_verbatim})
         \<or> (\<exists>sp n. r = In_readline_size sp n \<and> (sp = Sized_bulk \<or> sp = Sized_verbatim))"
  shows "parse_one h (set_encoding p v)
           = (fst (parse_one h p), set_encoding (snd (parse_one h p)) v)"
proof -
  have g: "gen (set_encoding p v) = Some (r, [])"
    using assms(1) by (simp add: set_encoding_def)
  have "resume h (set_encoding p v) r = map_step (\<lambda>q. set_encoding q v) (resume h p r)
      \<and> \<not> is_descend (resume h p r)" (is ?G)
  proof -
    from assms(2) consider
      (line) fp n where "r = In_readline fp n" "fp \<in> {Parse_single, Parse_int, Parse_float,
        Parse_bool, Parse_null, Parse_bulk, Parse_verbatim}"
      | (sized) sp n where "r = In_readline_size sp n" "sp = Sized_bulk \<or> sp = Sized_verbatim"
      by blast
    then show ?G
    proof cases
      case line
      note r = line(1) and fp = line(2)
      show ?thesis
      using line_step_set_encoding[OF fp, of h p v "readline p"]
      by (simp add: r readline_set_encoding not_descend_line_step[OF fp])
  next
    case sized
    note r = sized(1) and sp = sized(2)
    show ?thesis
      using size_step_set_encoding[OF sp, of h n p v "readline_size_rest p n"]
      by (simp add: r readline_size_rest_set_encoding not_descend_size_step)
    qed
  qed
  then show ?thesis
    using assms(1) g by (simp add: parse_one_def run_top_map_step)
qed

lemma set_encoding_pending_child:
  assumes "gen p = Some (In_readone n, [In_mutibulk (int (Suc (length acc))) acc])"
    "err p = None" "pos p = 0" "buf p = ''+'' @ line @ CRLF @ rest" "crlf_index line = None"
    "\<not> waitsome p n" "py_decode h enc (encoding_errors p) line = Inr t"
  shows "parse_one h (set_encoding p (Some enc))
           = (Value (PList (acc @ [PStr t])), (set_encoding p (Some enc))\<lparr>buf := rest, gen := None\<rparr>)"
proof -
  let ?q = "set_encoding p (Some enc)"
  let ?q1 = "?q\<lparr>pos := pos ?q + 1\<rparr>"
  have q: "pos ?q = 0" "buf ?q = CHR ''+'' # line @ CRLF @ rest" "encoding ?q = Some enc"
    "map_of (protocols ?q) ''+'' = Some Parse_single_decode" "encoding_errors ?q = encoding_errors p"
    using assms by (simp_all add: set_encoding_def PROTOCOLS_DECODE_def)
  have one: "readone_rest ?q = Done ''+'' ?q1"
    using q(1,2) by (simp add: readone_rest_def pyslice_def clamp_def)
  have "readline ?q1 = Done line (?q1\<lparr>pos := 0, buf := rest\<rparr>)"
    using q(1,2) assms(5) by (intro readline_line[where pre = "''+''"]) simp_all
  moreover have "?q1\<lparr>pos := 0, buf := rest\<rparr> = ?q\<lparr>buf := rest\<rparr>"
    using q(1) by (cases p) (simp add: set_encoding_def)
  ultimately have rl: "readline ?q1 = Done line (?q\<lparr>buf := rest\<rparr>)" by simp
  have "resume h ?q (In_readone n) = dispatch h ?q1 ''+''"
    using assms(6) by (simp add: one one_step_def)
  also have "\<dots> = line_step h Parse_single_decode ?q1 (readline ?q1)"
    using q(4) by (simp add: dispatch_def)
  also have "\<dots> = decoded h (?q\<lparr>buf := rest\<rparr>) (Some line)"
    by (simp only: rl line_step_def reading.case after_line.simps)
  also have "\<dots> = Returned (PStr t) (?q\<lparr>buf := rest\<rparr>)"
    using assms(7) q(3,5) by (simp add: decoded_def maybe_decode_def)
  finally have r: "resume h ?q (In_readone n) = Returned (PStr t) (?q\<lparr>buf := rest\<rparr>)" .
  have "gen ?q = Some (In_readone n, [In_mutibulk (int (Suc (length acc))) acc])"
    using assms(1) by (simp add: set_encoding_def)
  then have "parse_one h ?q
      = run h [In_mutibulk (int (Suc (length acc))) acc] (resume h ?q (In_readone n))"
    by (simp add: parse_one_def del: resume.simps)
  also have "\<dots> = run h [In_mutibulk (int (Suc (length acc))) acc]
      (Returned (PStr t) (?q\<lparr>buf := rest\<rparr>))"
    by (simp only: r)
  also have "\<dots> = (Value (PList (acc @ [PStr t])), ?q\<lparr>buf := rest, gen := None\<rparr>)"
    by simp
  finally show ?thesis .
qed

text \<open>
  C6, as amended. The setter switches the dispatch table at once. A top-level scalar
  frame whose tag byte was read before the change, and that was given a parser that does
  not decode (\<^verbatim>\<open>+\<close>, \<^verbatim>\<open>$\<close> or \<^verbatim>\<open>=\<close> under the raw table, or \<^verbatim>\<open>:\<close>, \<^verbatim>\<open>(\<close>, \<^verbatim>\<open>,\<close>, \<^verbatim>\<open>#\<close>, \<^verbatim>\<open>_\<close>),
  is completed exactly as without the change: the same outcome, and the same parser but
  for the encoding and the table. A child of an aggregate in progress whose tag byte is
  read after the change uses the decoded variant: the last child \<^verbatim>\<open>+line\r\n\<close> of a
  top-level array is delivered as text.
\<close>

theorem set_encoding_on_frames_in_progress:
  "(gen p = Some (r, []) \<and>
      ((\<exists>fp n. r = In_readline fp n \<and> fp \<in> {Parse_single, Parse_int, Parse_float, Parse_bool,
             Parse_null, Parse_bulk, Parse_verbatim})
       \<or> (\<exists>sp n. r = In_readline_size sp n \<and> (sp = Sized_bulk \<or> sp = Sized_verbatim))) \<longrightarrow>
    parse_one h (set_encoding p v) = (fst (parse_one h p), set_encoding (snd (parse_one h p)) v))
   \<and> (gen p = Some (In_readone n, [In_mutibulk (int (Suc (length acc))) acc])
      \<and> err p = None \<and> pos p = 0 \<and> buf p = ''+'' @ line @ CRLF @ rest \<and> crlf_index line = None
      \<and> \<not> waitsome p n \<and> py_decode h enc (encoding_errors p) line = Inr t \<longrightarrow>
    parse_one h (set_encoding p (Some enc))
      = (Value (PList (acc @ [PStr t])), (set_encoding p (Some enc))\<lparr>buf := rest, gen := None\<rparr>))"
  using set_encoding_scalar_in_progress[of p r h v]
    set_encoding_pending_child[of p n acc line rest h enc t]
  by blast

theorem set_encoding_on_frames_in_progress_witness:
  "gen (demo\<lparr>buf := ''hello'' @ CRLF, gen := Some (In_readline_size Sized_bulk 5, [])\<rparr>)
     = Some (In_readline_size Sized_bulk 5, [])
   \<and> parse_one latin1_host
        (set_encoding (demo\<lparr>buf := ''hello'' @ CRLF, gen := Some (In_readline_size Sized_bulk 5, [])\<rparr>)
           (Some ''latin-1''))
     = (fst (parse_one latin1_host
          (demo\<lparr>buf := ''hello'' @ CRLF, gen := Some (In_readline_size Sized_bulk 5, [])\<rparr>)),
        set_encoding (snd (parse_one latin1_host
          (demo\<lparr>buf := ''hello'' @ CRLF, gen := Some (In_readline_size Sized_bulk 5, [])\<rparr>)))
          (Some ''latin-1''))
   \<and> fst (parse_one latin1_host
          (demo\<lparr>buf := ''hello'' @ CRLF, gen := Some (In_readline_size Sized_bulk 5, [])\<rparr>))
     = Value (PBytes ''hello'')
   \<and> parse_one latin1_host
        (set_encoding (demo\<lparr>buf := ''+'' @ ''a'' @ CRLF @ [],
           gen := Some (In_readone 1, [In_mutibulk 1 []])\<rparr>) (Some ''latin-1''))
     = (Value (PList ([] @ [PStr [97]])),
        (set_encoding (demo\<lparr>buf := ''+'' @ ''a'' @ CRLF @ [],
           gen := Some (In_readone 1, [In_mutibulk 1 []])\<rparr>) (Some ''latin-1''))
          \<lparr>buf := [], gen := None\<rparr>)"
proof -
  let ?p = "demo\<lparr>buf := ''hello'' @ CRLF, gen := Some (In_readline_size Sized_bulk 5, [])\<rparr>"
  let ?q = "demo\<lparr>buf := ''+'' @ ''a'' @ CRLF @ [],
           gen := Some (In_readone 1, [In_mutibulk 1 []])\<rparr>"
  have a: "gen ?p = Some (In_readline_size Sized_bulk 5, [])"
    "(\<exists>fp n. In_readline_size Sized_bulk 5 = In_readline fp n \<and> fp \<in> {Parse_single, Parse_int,
        Parse_float, Parse_bool, Parse_null, Parse_bulk, Parse_verbatim})
     \<or> (\<exists>sp n. In_readline_size Sized_bulk 5 = In_readline_size sp n
          \<and> (sp = Sized_bulk \<or> sp = Sized_verbatim))"
    by simp_all
  have b: "fst (parse_one latin1_host ?p) = Value (PBytes ''hello'')"
    by code_simp
  have c: "gen ?q = Some (In_readone 1, [In_mutibulk 1 []])"
    "err ?q = None" "pos ?q = 0" "buf ?q = ''+'' @ ''a'' @ CRLF @ []" "crlf_index ''a'' = None"
    "\<not> waitsome ?q 1"
    "py_decode latin1_host ''latin-1'' (encoding_errors ?q) ''a'' = Inr [97]"
    by (simp_all add: demo_def init_def waitsome_def latin1_host_def CRLF_def)
  have d: "parse_one latin1_host (set_encoding ?p (Some ''latin-1''))
      = (fst (parse_one latin1_host ?p), set_encoding (snd (parse_one latin1_host ?p)) (Some ''latin-1''))"
    using set_encoding_on_frames_in_progress[of ?p "In_readline_size Sized_bulk 5" latin1_host
        "Some ''latin-1''" 1 "[]" "''a''" "[]" "''latin-1''" "[97]"] a
    by blast
  have e: "parse_one latin1_host (set_encoding ?q (Some ''latin-1''))
      = (Value (PList ([] @ [PStr [97]])), (set_encoding ?q (Some ''latin-1''))\<lparr>buf := [], gen := None\<rparr>)"
    using set_encoding_on_frames_in_progress[of ?q "In_readline_size Sized_bulk 5" latin1_host
        "Some ''latin-1''" 1 "[]" "''a''" "[]" "''latin-1''" "[97]"] c
    by simp
  show ?thesis
    using a(1) b d e by blast
qed

text \<open>
  C6 as stated fails: an array \<^verbatim>\<open>*1\r\n\<close> is started under the raw table and suspended
  before its child; with the encoding set meanwhile, the child \<^verbatim>\<open>+a\r\n\<close> is delivered as
  text, where without the change it is delivered as bytes.
\<close>

theorem set_encoding_changes_pending_children:
  "fst (parse_one latin1_host (feed demo (''*1'' @ CRLF))) = NotEnoughData
   \<and> fst (parse_one latin1_host
        (feed (snd (parse_one latin1_host (feed demo (''*1'' @ CRLF)))) (''+a'' @ CRLF)))
     = Value (PList [PBytes ''a''])
   \<and> fst (parse_one latin1_host
        (feed (set_encoding (snd (parse_one latin1_host (feed demo (''*1'' @ CRLF))))
                 (Some ''latin-1'')) (''+a'' @ CRLF)))
     = Value (PList [PStr [97]])"
  by code_simp

end
